theory Spec2Isabelle
  imports Main
begin

section \<open>Python values\<close>

text \<open>
  The agent's state is a Python dictionary and its fields are dynamically typed, so the
  values that travel through it are modelled by one datatype: \<open>None\<close>, booleans,
  integers, strings, lists and dictionaries (a dictionary is an association list, the
  first binding of a key being the one that counts). Strings are lists of 8-bit
  characters.
\<close>

datatype pyval =
    PNone
  | PBool bool
  | PInt int
  | PStr string
  | PList "pyval list"
  | PDict "(string \<times> pyval) list"

text \<open>Python truthiness, as \<^verbatim>\<open>if x\<close> and \<^verbatim>\<open>not x\<close> test it.\<close>

fun truthy :: "pyval \<Rightarrow> bool" where
  "truthy PNone = False"
| "truthy (PBool b) = b"
| "truthy (PInt i) = (i \<noteq> 0)"
| "truthy (PStr s) = (s \<noteq> [])"
| "truthy (PList xs) = (xs \<noteq> [])"
| "truthy (PDict kvs) = (kvs \<noteq> [])"

text \<open>\<^verbatim>\<open>d.get(k)\<close> and \<^verbatim>\<open>d.get(k, default)\<close> on a dictionary.\<close>

definition dict_get :: "(string \<times> pyval) list \<Rightarrow> string \<Rightarrow> pyval \<Rightarrow> pyval" where
  "dict_get kvs k d = (case map_of kvs k of None \<Rightarrow> d | Some v \<Rightarrow> v)"

subsection \<open>String methods\<close>

text \<open>
  \<^verbatim>\<open>str.strip()\<close> removes leading and trailing whitespace; on 8-bit characters Python's
  whitespace is TAB, LF, VT, FF, CR, the separators 28 to 31, the blank, NEL (133) and the
  no-break space (160).
\<close>

definition py_isspace :: "char \<Rightarrow> bool" where
  "py_isspace c =
     (let n = (of_char c :: nat)
      in (9 \<le> n \<and> n \<le> 13) \<or> (28 \<le> n \<and> n \<le> 32) \<or> n = 133 \<or> n = 160)"

definition lstrip :: "string \<Rightarrow> string" where
  "lstrip s = dropWhile py_isspace s"

definition strip :: "string \<Rightarrow> string" where
  "strip s = rev (lstrip (rev (lstrip s)))"

text \<open>
  \<^verbatim>\<open>str.upper()\<close>: the letters a to z become A to Z. The characters above 127 are
  left as they are. Python maps some of them, but none to a letter of the ASCII range
  except the sharp s (223), which becomes \<open>SS\<close>; as \<open>SELECT\<close> has no double S,
  the prefix test below, the only use of \<open>upper\<close>, gives the same answer.
\<close>

definition upper_char :: "char \<Rightarrow> char" where
  "upper_char c =
     (let n = (of_char c :: nat)
      in if 97 \<le> n \<and> n \<le> 122 then char_of (n - 32) else c)"

definition upper :: "string \<Rightarrow> string" where
  "upper s = map upper_char s"

definition startswith :: "string \<Rightarrow> string \<Rightarrow> bool" where
  "startswith s p = (take (length p) s = p)"

text \<open>
  \<^verbatim>\<open>s.replace(old, new)\<close> for a non-empty \<open>old\<close>: the occurrences of \<open>old\<close> are
  replaced from left to right, without overlap. The fuel is the length of the string
  (each step consumes at least one character).
\<close>

fun replace_fuel :: "nat \<Rightarrow> string \<Rightarrow> string \<Rightarrow> string \<Rightarrow> string" where
  "replace_fuel 0 old new s = s"
| "replace_fuel (Suc n) old new [] = []"
| "replace_fuel (Suc n) old new (c # cs) =
     (if startswith (c # cs) old
      then new @ replace_fuel n old new (drop (length old) (c # cs))
      else c # replace_fuel n old new cs)"

definition replace :: "string \<Rightarrow> string \<Rightarrow> string \<Rightarrow> string" where
  "replace s old new = replace_fuel (length s) old new s"

section \<open>Exceptions and collaborators\<close>

text \<open>
  An exception is its class and its message (\<^verbatim>\<open>str(e)\<close>). Only subclasses of
  \<^verbatim>\<open>Exception\<close> are modelled, which is what \<^verbatim>\<open>except Exception\<close> catches. The
  class \<open>ParallelBranches\<close> is no exception of the program: it marks the one place
  where the sequential executor below stops following the graph library (see the
  conditional edges).
\<close>

datatype exn_class =
    PsycopgError | KeyError | TypeError | AttributeError | ValueError
  | JSONDecodeError | ValidationError | OtherError | ParallelBranches

datatype exn = Raised exn_class string

fun str_of :: "exn \<Rightarrow> string" where
  "str_of (Raised c m) = m"

fun class_of :: "exn \<Rightarrow> exn_class" where
  "class_of (Raised c m) = c"

text \<open>
  The collaborators are outside the repository: the language model, the database, the
  vector store, and the library functions that parse and print JSON. Each is a
  parameter. A call's outcome is looked up by the number of calls made before it (and
  by its argument), so that every sequence of outcomes is some environment.
\<close>

datatype llm_outcome =
    Llm_raises exn
  | Llm_returns "string option"

datatype db_outcome =
    Connect_raises exn
  | Execute_raises exn
  | No_description
  | Fetched "pyval list"

record env =
  llm_reply :: "nat \<Rightarrow> llm_outcome"
  db_reply :: "nat \<Rightarrow> string \<Rightarrow> db_outcome"
  store_reply :: "nat \<Rightarrow> exn option"
  json_loads :: "string \<Rightarrow> exn + pyval"
  json_dumps :: "pyval \<Rightarrow> exn + string"
  validate_plan :: "string \<Rightarrow> exn + pyval"

text \<open>
  The world records what the collaborators have seen so far: the number of chat
  completions asked for, the number of database connections asked for, the query texts
  handed to \<^verbatim>\<open>cur.execute\<close>, the number of vector-store writes attempted and the
  (user, fact) pairs written.
\<close>

record world =
  llm_calls :: nat
  db_calls :: nat
  executed :: "string list"
  store_calls :: nat
  saved :: "(string \<times> string) list"

section \<open>The tool wrapper\<close>

text \<open>
  The functions of \<^verbatim>\<open>tools/\<close> are decorated with \<^verbatim>\<open>@tool\<close> and the nodes call
  them through \<^verbatim>\<open>ainvoke\<close> only. The wrapper checks the arguments against the
  function's annotations before the body runs and raises a \<^verbatim>\<open>ValidationError\<close> when
  one does not fit: an argument annotated \<^verbatim>\<open>str\<close> must be a string, one annotated
  \<^verbatim>\<open>List[Dict[str, Any]]\<close> a list of dictionaries. The message is abridged.
\<close>

definition validate_str :: "string \<Rightarrow> pyval \<Rightarrow> exn + string" where
  "validate_str field v =
     (case v of
        PStr s \<Rightarrow> Inr s
      | _ \<Rightarrow> Inl (Raised ValidationError (field @ '': Input should be a valid string'')))"

fun is_dict :: "pyval \<Rightarrow> bool" where
  "is_dict (PDict kvs) = True"
| "is_dict v = False"

definition validate_rows :: "string \<Rightarrow> pyval \<Rightarrow> exn + pyval list" where
  "validate_rows field v =
     (case v of
        PList rows \<Rightarrow>
          if list_all is_dict rows then Inr rows
          else Inl (Raised ValidationError (field @ '': Input should be a valid dictionary''))
      | _ \<Rightarrow> Inl (Raised ValidationError (field @ '': Input should be a valid list'')))"

section \<open>tools/sql\_tools.py\<close>

definition sql_result :: "pyval \<Rightarrow> pyval \<Rightarrow> pyval" where
  "sql_result r e = PDict [(''query_result'', r), (''sql_error'', e)]"

text \<open>
  The \<^verbatim>\<open>try\<close> block of \<^verbatim>\<open>execute_sql_query\<close>: a connection is taken from the pool,
  the query text is executed as it was given (not stripped), and the rows are fetched
  unless the cursor has no description.
\<close>

definition db_try :: "env \<Rightarrow> world \<Rightarrow> string \<Rightarrow> (exn + pyval) \<times> world" where
  "db_try env w q =
     (let w1 = w\<lparr>db_calls := Suc (db_calls w)\<rparr>;
          w2 = w1\<lparr>executed := executed w @ [q]\<rparr>
      in case db_reply env (db_calls w) q of
           Connect_raises e \<Rightarrow> (Inl e, w1)
         | Execute_raises e \<Rightarrow> (Inl e, w2)
         | No_description \<Rightarrow> (Inr (sql_result (PList []) PNone), w2)
         | Fetched rows \<Rightarrow> (Inr (sql_result (PList rows) PNone), w2))"

text \<open>
  The body of \<^verbatim>\<open>execute_sql_query\<close>. It is entered with a string, so that of its first
  test, \<^verbatim>\<open>not isinstance(sql_query, str) or not sql_query.strip()\<close>, only the second
  half can hold.
\<close>

definition execute_sql_query_body :: "env \<Rightarrow> world \<Rightarrow> string \<Rightarrow> (exn + pyval) \<times> world" where
  "execute_sql_query_body env w q =
     (if strip q = [] then
        (Inr (sql_result PNone (PStr ''Invalid or empty SQL query provided.'')), w)
      else if \<not> startswith (upper (strip q)) ''SELECT'' then
        (Inr (sql_result PNone (PStr ''Security Error: Only SELECT queries are allowed.'')), w)
      else
        (case db_try env w q of
           (Inl e, w') \<Rightarrow>
             if class_of e = PsycopgError
             then (Inr (sql_result PNone (PStr (str_of e))), w')
             else (Inr (sql_result PNone (PStr (str_of e))), w')
         | (Inr r, w') \<Rightarrow> (Inr r, w')))"

text \<open>The tool as the nodes invoke it: \<^verbatim>\<open>execute_sql_query.ainvoke({"sql_query": v})\<close>.\<close>

definition execute_sql_query :: "env \<Rightarrow> world \<Rightarrow> pyval \<Rightarrow> (exn + pyval) \<times> world" where
  "execute_sql_query env w sql_query =
     (case validate_str ''sql_query'' sql_query of
        Inl e \<Rightarrow> (Inl e, w)
      | Inr q \<Rightarrow> execute_sql_query_body env w q)"

section \<open>The state record\<close>

text \<open>
  Modelled from the spec: \<^verbatim>\<open>agents/states.py\<close>, which declares \<^verbatim>\<open>AgentState\<close>, is
  not among the sources; the keys are those of the spec's State Record, all of which the
  nodes read or write, and \<open>user_response\<close>, which \<^verbatim>\<open>app/api.py\<close> still sends. The
  state is a dictionary: a key may be absent, which
  \<^verbatim>\<open>state.get(k)\<close> reads as \<open>None\<close> and \<^verbatim>\<open>state[k]\<close> answers with a
  \<^verbatim>\<open>KeyError\<close>. A node returns a partial update, a dictionary of the same kind.
\<close>

datatype key =
    Question | Chat_history | User_id | Next_node
  | Retrieved_schema | Few_shot_examples | Long_term_memory
  | Generated_sql | Query_result | Sql_error | Summary
  | Visualization_plan | Plotly_figure_json | Facts_to_save | User_response

type_synonym agent_state = "key \<rightharpoonup> pyval"

definition getv :: "agent_state \<Rightarrow> key \<Rightarrow> pyval" where
  "getv s k = (case s k of None \<Rightarrow> PNone | Some v \<Rightarrow> v)"

definition index :: "agent_state \<Rightarrow> key \<Rightarrow> string \<Rightarrow> exn + pyval" where
  "index s k name = (case s k of None \<Rightarrow> Inl (Raised KeyError name) | Some v \<Rightarrow> Inr v)"

text \<open>
  One chat completion: \<^verbatim>\<open>invoke_chat_completion\<close> either raises (its retries are
  exhausted) or returns the text of the first choice, \<open>None\<close> when there is none. The
  prompt is not modelled: the reply is arbitrary.
\<close>

definition invoke_chat_completion :: "env \<Rightarrow> world \<Rightarrow> llm_outcome \<times> world" where
  "invoke_chat_completion env w = (llm_reply env (llm_calls w), w\<lparr>llm_calls := Suc (llm_calls w)\<rparr>)"

section \<open>agents/nodes.py\<close>

type_synonym node_fun = "agent_state \<Rightarrow> world \<Rightarrow> (exn + agent_state) \<times> world"

text \<open>
  \<^verbatim>\<open>router_node\<close>: the reply is parsed with no handler around it, and the route is read
  with a default that applies when the key \<open>route\<close> is missing. The history, when
  there is one, is the list of messages the caller built, so that printing it into the
  prompt does not raise.
\<close>

definition router_node :: "env \<Rightarrow> node_fun" where
  "router_node env s w =
     (case invoke_chat_completion env w of
        (Llm_raises e, w') \<Rightarrow> (Inl e, w')
      | (Llm_returns None, w') \<Rightarrow>
          (Inl (Raised TypeError ''the JSON object must be str, bytes or bytearray, not NoneType''), w')
      | (Llm_returns (Some response_str), w') \<Rightarrow>
          (case json_loads env response_str of
             Inl e \<Rightarrow> (Inl e, w')
           | Inr (PDict routing_result) \<Rightarrow>
               (Inr [Next_node \<mapsto> dict_get routing_result ''route'' (PStr ''general_conversation'')], w')
           | Inr _ \<Rightarrow> (Inl (Raised AttributeError ''get''), w')))"

text \<open>
  \<^verbatim>\<open>query_execution_node\<close>: the tool is invoked on \<^verbatim>\<open>state.get("generated_sql")\<close>
  and its two entries are copied into the update. The wrapper's exception, when the
  value is not a string, leaves the node.
\<close>

definition query_execution_node :: "env \<Rightarrow> node_fun" where
  "query_execution_node env s w =
     (let sql_query = getv s Generated_sql
      in case execute_sql_query env w sql_query of
           (Inl e, w') \<Rightarrow> (Inl e, w')
         | (Inr (PDict result), w') \<Rightarrow>
             (Inr [Query_result \<mapsto> dict_get result ''query_result'' PNone,
                   Sql_error \<mapsto> dict_get result ''sql_error'' PNone,
                   Generated_sql \<mapsto> sql_query], w')
         | (Inr _, w') \<Rightarrow> (Inl (Raised AttributeError ''get''), w'))"

text \<open>The cleaning of a generated query: the text is stripped, the code fences (three
  backquotes, with or without \<open>sql\<close>) are removed, and the text is stripped again.\<close>

definition fence :: string where
  "fence = [CHR 0x60, CHR 0x60, CHR 0x60]"

definition clean_sql :: "string \<Rightarrow> string" where
  "clean_sql t = strip (replace (replace (strip t) (fence @ ''sql'') []) fence [])"

text \<open>
  \<^verbatim>\<open>self_correction_node\<close>: the four keys are indexed (a missing one is a
  \<^verbatim>\<open>KeyError\<close>), the model is asked, and the update holds the cleaned text and a null
  \<open>sql_error\<close>. A reply of \<open>None\<close> has no \<^verbatim>\<open>strip\<close>.
\<close>

fun first_error :: "(exn + pyval) list \<Rightarrow> exn option" where
  "first_error [] = None"
| "first_error (Inl e # rs) = Some e"
| "first_error (Inr v # rs) = first_error rs"

definition self_correction_node :: "env \<Rightarrow> node_fun" where
  "self_correction_node env s w =
     (case first_error [index s Question ''question'',
                        index s Generated_sql ''generated_sql'',
                        index s Sql_error ''sql_error'',
                        index s Retrieved_schema ''retrieved_schema''] of
        Some e \<Rightarrow> (Inl e, w)
      | None \<Rightarrow>
          (case invoke_chat_completion env w of
             (Llm_raises e, w') \<Rightarrow> (Inl e, w')
           | (Llm_returns None, w') \<Rightarrow> (Inl (Raised AttributeError ''strip''), w')
           | (Llm_returns (Some corrected_sql), w') \<Rightarrow>
               (Inr [Generated_sql \<mapsto> PStr (clean_sql corrected_sql), Sql_error \<mapsto> PNone], w')))"

section \<open>tools/analysis\_tools.py\<close>

text \<open>
  \<^verbatim>\<open>summarize_results\<close>: everything after the emptiness test runs inside a handler that
  turns an exception into an error text, so the tool always returns a string.
\<close>

definition summarize_try :: "env \<Rightarrow> world \<Rightarrow> pyval \<Rightarrow> (exn + pyval) \<times> world" where
  "summarize_try env w query_result =
     (case json_dumps env query_result of
        Inl e \<Rightarrow> (Inl e, w)
      | Inr _ \<Rightarrow>
          (case invoke_chat_completion env w of
             (Llm_raises e, w') \<Rightarrow> (Inl e, w')
           | (Llm_returns None, w') \<Rightarrow>
               (Inl (Raised ValueError ''LLM failed to generate a summary.''), w')
           | (Llm_returns (Some summary), w') \<Rightarrow>
               if summary = []
               then (Inl (Raised ValueError ''LLM failed to generate a summary.''), w')
               else (Inr (PStr summary), w')))"

definition summarize_results_body :: "env \<Rightarrow> world \<Rightarrow> pyval \<Rightarrow> pyval \<times> world" where
  "summarize_results_body env w query_result =
     (if \<not> truthy query_result
      then (PStr ''The query returned no data. There is nothing to summarize.'', w)
      else (case summarize_try env w query_result of
              (Inl e, w') \<Rightarrow>
                (PStr (''Error: Failed to generate summary. Details: '' @ str_of e), w')
            | (Inr summary, w') \<Rightarrow> (summary, w')))"

text \<open>The tool as invoked: both arguments pass the wrapper first.\<close>

definition summarize_results ::
  "env \<Rightarrow> world \<Rightarrow> pyval \<Rightarrow> pyval \<Rightarrow> (exn + pyval) \<times> world" where
  "summarize_results env w question query_result =
     (case validate_str ''question'' question of
        Inl e \<Rightarrow> (Inl e, w)
      | Inr _ \<Rightarrow>
          (case validate_rows ''query_result'' query_result of
             Inl e \<Rightarrow> (Inl e, w)
           | Inr rows \<Rightarrow>
               (case summarize_results_body env w (PList rows) of
                  (summary, w') \<Rightarrow> (Inr summary, w'))))"

text \<open>
  The preview \<^verbatim>\<open>plan_visualizations\<close> builds from its data: the keys of the first row
  and the first three rows. Data that is not a list of dictionaries raises here, inside
  the handler.
\<close>

fun data_preview :: "pyval \<Rightarrow> exn + pyval" where
  "data_preview (PList []) = Inr (PDict [(''columns'', PList []), (''preview_rows'', PList [])])"
| "data_preview (PList (PDict kvs # rows)) =
     Inr (PDict [(''columns'', PList (map (\<lambda>kv. PStr (fst kv)) kvs)),
                 (''preview_rows'', PList (take 3 (PDict kvs # rows)))])"
| "data_preview (PList (row # rows)) = Inl (Raised AttributeError ''keys'')"
| "data_preview (PStr s) = Inl (Raised AttributeError ''keys'')"
| "data_preview (PDict kvs) = Inl (Raised KeyError ''0'')"
| "data_preview v = Inl (Raised TypeError ''object is not subscriptable'')"

definition plan_try :: "env \<Rightarrow> world \<Rightarrow> pyval \<Rightarrow> (exn + pyval) \<times> world" where
  "plan_try env w data =
     (case data_preview data of
        Inl e \<Rightarrow> (Inl e, w)
      | Inr preview \<Rightarrow>
          (case json_dumps env preview of
             Inl e \<Rightarrow> (Inl e, w)
           | Inr _ \<Rightarrow>
               (case invoke_chat_completion env w of
                  (Llm_raises e, w') \<Rightarrow> (Inl e, w')
                | (Llm_returns None, w') \<Rightarrow>
                    (Inl (Raised ValueError ''LLM returned no response for visualization plan.''), w')
                | (Llm_returns (Some response_str), w') \<Rightarrow>
                    if response_str = []
                    then (Inl (Raised ValueError ''LLM returned no response for visualization plan.''), w')
                    else (case validate_plan env response_str of
                            Inl e \<Rightarrow> (Inl e, w')
                          | Inr plan \<Rightarrow> (Inr (PDict [(''plan'', plan)]), w')))))"

definition plan_visualizations_body :: "env \<Rightarrow> world \<Rightarrow> pyval \<Rightarrow> pyval \<times> world" where
  "plan_visualizations_body env w data =
     (if \<not> truthy data
      then (PDict [(''error'', PStr ''No data available to create a visualization plan.'')], w)
      else (case plan_try env w data of
              (Inl e, w') \<Rightarrow>
                if class_of e = ValidationError
                then (PDict [(''error'',
                        PStr (''LLM returned an invalid JSON structure for the visualization plan. Details: ''
                              @ str_of e)),
                       (''plan'', PNone)], w')
                else (PDict [(''error'',
                        PStr (''An unexpected error occurred in plan_visualizations: '' @ str_of e)),
                       (''plan'', PNone)], w')
            | (Inr r, w') \<Rightarrow> (r, w')))"

text \<open>The tool as invoked: both arguments pass the wrapper first.\<close>

definition plan_visualizations ::
  "env \<Rightarrow> world \<Rightarrow> pyval \<Rightarrow> pyval \<Rightarrow> (exn + pyval) \<times> world" where
  "plan_visualizations env w question data =
     (case validate_str ''question'' question of
        Inl e \<Rightarrow> (Inl e, w)
      | Inr _ \<Rightarrow>
          (case validate_rows ''data'' data of
             Inl e \<Rightarrow> (Inl e, w)
           | Inr rows \<Rightarrow>
               (case plan_visualizations_body env w (PList rows) of
                  (plan_result, w') \<Rightarrow> (Inr plan_result, w'))))"

section \<open>agents/nodes.py, continued\<close>

definition summarization_node :: "env \<Rightarrow> node_fun" where
  "summarization_node env s w =
     (let query_result = getv s Query_result
      in if \<not> truthy query_result
         then (Inr [Summary \<mapsto> PStr ''The query returned no data to summarize.''], w)
         else (case index s Question ''question'' of
                 Inl e \<Rightarrow> (Inl e, w)
               | Inr question \<Rightarrow>
                   (case summarize_results env w question query_result of
                      (Inl e, w') \<Rightarrow> (Inl e, w')
                    | (Inr summary, w') \<Rightarrow> (Inr [Summary \<mapsto> summary], w'))))"

definition visualization_planning_node :: "env \<Rightarrow> node_fun" where
  "visualization_planning_node env s w =
     (let query_result = getv s Query_result
      in if \<not> truthy query_result
         then (Inr [Visualization_plan \<mapsto> PNone], w)
         else (case index s Question ''question'' of
                 Inl e \<Rightarrow> (Inl e, w)
               | Inr question \<Rightarrow>
                   (case plan_visualizations env w question query_result of
                      (Inl e, w') \<Rightarrow> (Inl e, w')
                    | (Inr (PDict plan_result), w') \<Rightarrow>
                        (Inr [Visualization_plan \<mapsto> dict_get plan_result ''plan'' PNone], w')
                    | (Inr _, w') \<Rightarrow> (Inl (Raised AttributeError ''get''), w'))))"

text \<open>\<^verbatim>\<open>len(x)\<close>: strings, lists and dictionaries have a length, the other values raise.\<close>

fun py_len :: "pyval \<Rightarrow> exn + nat" where
  "py_len (PStr s) = Inr (length s)"
| "py_len (PList xs) = Inr (length xs)"
| "py_len (PDict kvs) = Inr (length kvs)"
| "py_len v = Inl (Raised TypeError ''object has no len()'')"

text \<open>
  The \<^verbatim>\<open>try\<close> block of \<^verbatim>\<open>curate_memory_node\<close>: the model is asked, an empty reply is
  a \<^verbatim>\<open>ValueError\<close>, the reply is parsed, the facts are read with the default \<open>[]\<close> and
  counted for the log line.
\<close>

definition curate_try :: "env \<Rightarrow> world \<Rightarrow> (exn + pyval) \<times> world" where
  "curate_try env w =
     (case invoke_chat_completion env w of
        (Llm_raises e, w') \<Rightarrow> (Inl e, w')
      | (Llm_returns None, w') \<Rightarrow>
          (Inl (Raised ValueError ''Memory curation LLM call returned no response.''), w')
      | (Llm_returns (Some response_str), w') \<Rightarrow>
          if response_str = []
          then (Inl (Raised ValueError ''Memory curation LLM call returned no response.''), w')
          else (case json_loads env response_str of
                  Inl e \<Rightarrow> (Inl e, w')
                | Inr (PDict curation_result) \<Rightarrow>
                    (let facts = dict_get curation_result ''facts_to_save'' (PList [])
                     in case py_len facts of
                          Inl e \<Rightarrow> (Inl e, w')
                        | Inr _ \<Rightarrow> (Inr facts, w'))
                | Inr _ \<Rightarrow> (Inl (Raised AttributeError ''get''), w')))"

definition curate_memory_node :: "env \<Rightarrow> node_fun" where
  "curate_memory_node env s w =
     (let chat_history = getv s Chat_history
      in if \<not> truthy chat_history
         then (Inr [Facts_to_save \<mapsto> PList []], w)
         else (case curate_try env w of
                 (Inl e, w') \<Rightarrow> (Inr [Facts_to_save \<mapsto> PList []], w')
               | (Inr facts, w') \<Rightarrow> (Inr [Facts_to_save \<mapsto> facts], w')))"

section \<open>tools/memory\_management.py\<close>

text \<open>
  The body of \<^verbatim>\<open>save_memory\<close>: nothing is written for an empty user or an empty
  fact; a failing write is caught and reported in the returned text, which the node
  ignores, so only the world is returned.
\<close>

definition save_memory_body :: "env \<Rightarrow> world \<Rightarrow> string \<Rightarrow> string \<Rightarrow> world" where
  "save_memory_body env w user_id fact' =
     (if user_id = [] \<or> fact' = [] then w
      else (case store_reply env (store_calls w) of
              Some e \<Rightarrow> w\<lparr>store_calls := Suc (store_calls w)\<rparr>
            | None \<Rightarrow> w\<lparr>store_calls := Suc (store_calls w),
                           saved := saved w @ [(user_id, fact')]\<rparr>))"

text \<open>The tool as invoked: \<^verbatim>\<open>save_memory.ainvoke({"user_id": u, "fact": f})\<close>.\<close>

definition save_memory :: "env \<Rightarrow> world \<Rightarrow> pyval \<Rightarrow> pyval \<Rightarrow> exn option \<times> world" where
  "save_memory env w user_id fact' =
     (case validate_str ''user_id'' user_id of
        Inl e \<Rightarrow> (Some e, w)
      | Inr u \<Rightarrow>
          (case validate_str ''fact'' fact' of
             Inl e \<Rightarrow> (Some e, w)
           | Inr f \<Rightarrow> (None, save_memory_body env w u f)))"

text \<open>
  \<^verbatim>\<open>for fact in facts_to_save\<close>: a list yields its elements, a string its characters,
  a dictionary its keys; the other values are not iterable.
\<close>

fun py_iter :: "pyval \<Rightarrow> exn + pyval list" where
  "py_iter (PList xs) = Inr xs"
| "py_iter (PStr s) = Inr (map (\<lambda>c. PStr [c]) s)"
| "py_iter (PDict kvs) = Inr (map (\<lambda>kv. PStr (fst kv)) kvs)"
| "py_iter v = Inl (Raised TypeError ''object is not iterable'')"

text \<open>The loop: the facts are saved one by one, and the first exception ends it.\<close>

fun save_facts :: "env \<Rightarrow> pyval \<Rightarrow> world \<Rightarrow> pyval list \<Rightarrow> exn option \<times> world" where
  "save_facts env user_id w [] = (None, w)"
| "save_facts env user_id w (fact' # facts) =
     (case save_memory env w user_id fact' of
        (Some e, w') \<Rightarrow> (Some e, w')
      | (None, w') \<Rightarrow> save_facts env user_id w' facts)"

definition save_memory_node :: "env \<Rightarrow> node_fun" where
  "save_memory_node env s w =
     (let user_id = getv s User_id;
          facts_to_save = getv s Facts_to_save
      in if \<not> truthy user_id \<or> \<not> truthy facts_to_save
         then (Inr Map.empty, w)
         else (case py_iter facts_to_save of
                 Inl e \<Rightarrow> (Inl e, w)
               | Inr facts \<Rightarrow>
                   (case save_facts env user_id w facts of
                      (Some e, w') \<Rightarrow> (Inl e, w')
                    | (None, w') \<Rightarrow> (Inr Map.empty, w'))))"

section \<open>core/agent.py: the graph\<close>

datatype node =
    Router | Direct_response | Load_memory | Schema_linking | Query_generation
  | Query_execution | Self_correction | Summarization
  | Plan_visualization | Figure_generation | Curate_memory | Save_memory | END

definition should_continue_to_summarization :: "agent_state \<Rightarrow> string" where
  "should_continue_to_summarization s =
     (if truthy (getv s Sql_error) then ''self_correction'' else ''summarization'')"

definition should_continue_to_visualization :: "agent_state \<Rightarrow> string" where
  "should_continue_to_visualization s =
     (if truthy (getv s Query_result) then ''plan_visualization'' else ''curate_memory'')"

text \<open>
  A conditional edge is a selector and a dictionary from the selector's labels to the
  targets. What the selector returns is one label, or a list of labels when it is a list.
  Each label is looked up in the dictionary when the edge is taken: a label that is not a
  key of it is a \<^verbatim>\<open>KeyError\<close> there, and a label that is itself a list or a dictionary
  cannot be hashed, a \<^verbatim>\<open>TypeError\<close>.
\<close>

fun labels_of :: "pyval \<Rightarrow> pyval list" where
  "labels_of (PList ls) = ls"
| "labels_of v = [v]"

fun destinations :: "(pyval \<times> node) list \<Rightarrow> pyval list \<Rightarrow> exn + node list" where
  "destinations ends [] = Inr []"
| "destinations ends (PList l # ls) = Inl (Raised TypeError ''unhashable type: list'')"
| "destinations ends (PDict d # ls) = Inl (Raised TypeError ''unhashable type: dict'')"
| "destinations ends (label # ls) =
     (case map_of ends label of
        None \<Rightarrow> Inl (Raised KeyError ''branch label'')
      | Some target \<Rightarrow>
          (case destinations ends ls of
             Inl e \<Rightarrow> Inl e
           | Inr targets \<Rightarrow> Inr (target # targets)))"

text \<open>
  One destination is the next step. With no destination nothing is scheduled and the
  turn is over. Several destinations would be run side by side by the graph library;
  the executor of the spec runs one step at a time, and the modelled run ends there,
  marked \<open>ParallelBranches\<close>.
\<close>

definition conditional_edge ::
  "(agent_state \<Rightarrow> exn + pyval) \<Rightarrow> (pyval \<times> node) list \<Rightarrow> agent_state \<Rightarrow> exn + node" where
  "conditional_edge selector ends s =
     (case selector s of
        Inl e \<Rightarrow> Inl e
      | Inr label \<Rightarrow>
          (case destinations ends (labels_of label) of
             Inl e \<Rightarrow> Inl e
           | Inr [] \<Rightarrow> Inr END
           | Inr [target] \<Rightarrow> Inr target
           | Inr (target # other # targets) \<Rightarrow>
               Inl (Raised ParallelBranches ''several destinations'')))"

text \<open>The edges \<^verbatim>\<open>create_agent_graph\<close> adds, in its order.\<close>

fun edges :: "node \<Rightarrow> agent_state \<Rightarrow> exn + node" where
  "edges Router s =
     conditional_edge (\<lambda>s. index s Next_node ''next_node'')
       [(PStr ''general_conversation'', Direct_response), (PStr ''sql_query'', Load_memory)] s"
| "edges Direct_response s = Inr Curate_memory"
| "edges Load_memory s = Inr Schema_linking"
| "edges Schema_linking s = Inr Query_generation"
| "edges Query_generation s = Inr Query_execution"
| "edges Query_execution s =
     conditional_edge (\<lambda>s. Inr (PStr (should_continue_to_summarization s)))
       [(PStr ''self_correction'', Self_correction), (PStr ''summarization'', Summarization)] s"
| "edges Self_correction s = Inr Query_execution"
| "edges Summarization s =
     conditional_edge (\<lambda>s. Inr (PStr (should_continue_to_visualization s)))
       [(PStr ''plan_visualization'', Plan_visualization), (PStr ''curate_memory'', Curate_memory)] s"
| "edges Plan_visualization s = Inr Figure_generation"
| "edges Figure_generation s = Inr Curate_memory"
| "edges Curate_memory s = Inr Save_memory"
| "edges Save_memory s = Inr END"
| "edges END s = Inr END"

text \<open>
  The nodes registered under the graph's names. The five nodes that no property below
  depends on (\<^verbatim>\<open>direct_response\<close>, \<^verbatim>\<open>load_memory\<close>, \<^verbatim>\<open>schema_linking\<close>,
  \<^verbatim>\<open>query_generation\<close>, \<^verbatim>\<open>figure_generation\<close>) are a parameter: what is proved
  holds whatever they do.
\<close>

fun create_agent_graph :: "env \<Rightarrow> (node \<Rightarrow> node_fun) \<Rightarrow> node \<Rightarrow> node_fun" where
  "create_agent_graph env others Router = router_node env"
| "create_agent_graph env others Query_execution = query_execution_node env"
| "create_agent_graph env others Self_correction = self_correction_node env"
| "create_agent_graph env others Summarization = summarization_node env"
| "create_agent_graph env others Plan_visualization = visualization_planning_node env"
| "create_agent_graph env others Curate_memory = curate_memory_node env"
| "create_agent_graph env others Save_memory = save_memory_node env"
| "create_agent_graph env others n = others n"

section \<open>The executor\<close>

text \<open>
  Modelled from the spec: the executor is the graph library's, not the repository's. As
  the spec's Executor contract has it, one step runs the current node on the state,
  merges the partial update by shallow key replacement, emits the event (node, update)
  and follows the node's edge on the merged state; an exception of the node or of the
  edge aborts the turn; the terminal step ends it. No bound on the number of steps is
  modelled.
\<close>

record config =
  cur :: node
  st :: agent_state
  wld :: world
  events :: "(node \<times> agent_state) list"

definition merge :: "agent_state \<Rightarrow> agent_state \<Rightarrow> agent_state" where
  "merge s u = s ++ u"

definition step :: "(node \<Rightarrow> node_fun) \<Rightarrow> config \<Rightarrow> exn + config" where
  "step nodes c =
     (case nodes (cur c) (st c) (wld c) of
        (Inl e, w') \<Rightarrow> Inl e
      | (Inr u, w') \<Rightarrow>
          (case edges (cur c) (merge (st c) u) of
             Inl e \<Rightarrow> Inl e
           | Inr n \<Rightarrow>
               Inr \<lparr>cur = n, st = merge (st c) u, wld = w', events = events c @ [(cur c, u)]\<rparr>))"

fun steps :: "(node \<Rightarrow> node_fun) \<Rightarrow> nat \<Rightarrow> config \<Rightarrow> exn + config" where
  "steps nodes 0 c = Inr c"
| "steps nodes (Suc k) c =
     (if cur c = END then Inr c
      else (case step nodes c of Inl e \<Rightarrow> Inl e | Inr c' \<Rightarrow> steps nodes k c'))"

text \<open>What the events tell: how often a node ran, and the execution attempts' errors.\<close>

definition executions :: "node \<Rightarrow> (node \<times> agent_state) list \<Rightarrow> nat" where
  "executions n evs = length (filter (\<lambda>ev. fst ev = n) evs)"

definition attempts :: "(node \<times> agent_state) list \<Rightarrow> pyval list" where
  "attempts evs = map (\<lambda>ev. getv (snd ev) Sql_error) (filter (\<lambda>ev. fst ev = Query_execution) evs)"

text \<open>The nodes the graph can reach once execution has succeeded, and once the summary is written.\<close>

definition after_execution :: "node set" where
  "after_execution = {Summarization, Plan_visualization, Figure_generation, Curate_memory, Save_memory, END}"

definition after_summary :: "node set" where
  "after_summary = {Curate_memory, Save_memory, END}"

section \<open>app/api.py\<close>

record chat_message =
  role :: string
  content :: string

record chat_request =
  model :: string
  messages :: "chat_message list"
  stream :: bool

datatype http_exception = HTTPException nat string

record invocation =
  thread_id :: string
  agent_input :: agent_state

definition last_user_message :: "chat_message list \<Rightarrow> string option" where
  "last_user_message msgs =
     (case filter (\<lambda>msg. role msg = ''user'') (rev msgs) of
        [] \<Rightarrow> None
      | msg # _ \<Rightarrow> Some (content msg))"

definition to_message :: "chat_message \<Rightarrow> pyval" where
  "to_message msg =
     PDict [(''type'', PStr (if role msg = ''user'' then ''human'' else ''ai'')),
            (''content'', PStr (content msg))]"

text \<open>
  \<^verbatim>\<open>chat_completions\<close> up to the call of the executor: the thread identifier is the next
  value of \<^verbatim>\<open>uuid.uuid4()\<close>, a parameter here together with the number of values drawn
  so far; the history is built from the request's messages.
\<close>

definition chat_completions ::
  "(nat \<Rightarrow> string) \<Rightarrow> nat \<Rightarrow> bool \<Rightarrow> chat_request \<Rightarrow> (http_exception + invocation) \<times> nat" where
  "chat_completions uuid4 drawn checkpointer request =
     (if \<not> checkpointer then (Inl (HTTPException 503 ''Checkpointer not initialized.''), drawn)
      else (case last_user_message (messages request) of
              None \<Rightarrow> (Inl (HTTPException 400 ''No user message found.''), drawn)
            | Some q \<Rightarrow>
                if q = [] then (Inl (HTTPException 400 ''No user message found.''), drawn)
                else (Inr \<lparr>thread_id = uuid4 drawn,
                           agent_input =
                             [Question \<mapsto> PStr q,
                              Chat_history \<mapsto> PList (map to_message (messages request)),
                              User_id \<mapsto> PStr ''open-webui-user'',
                              User_response \<mapsto> PStr ''approve'']\<rparr>,
                      Suc drawn)))"

section \<open>app/main.py and langgraph\_agent\_pipe.py\<close>

text \<open>
  The other two entry points read the request body as a JSON object. Of it the messages,
  the user and the conversation identifier matter here; they are given the types the
  chat protocol gives them.
\<close>

record request_body =
  body_messages :: "chat_message list"
  body_user :: "string option"
  conversation_id :: "string option"

definition last_content :: "chat_message list \<Rightarrow> string" where
  "last_content msgs = (case msgs of [] \<Rightarrow> [] | _ \<Rightarrow> content (last msgs))"

text \<open>\<^verbatim>\<open>app/main.py\<close>: the thread identifier is made of the request's user.\<close>

definition main_chat_completions :: "bool \<Rightarrow> request_body \<Rightarrow> http_exception + invocation" where
  "main_chat_completions agent_executor body =
     (if \<not> agent_executor
      then Inl (HTTPException 503 ''Agent is not available. Please check server logs.'')
      else (let user_id = (case body_user body of None \<Rightarrow> ''default-user'' | Some u \<Rightarrow> u);
                question = last_content (body_messages body)
            in if question = []
               then Inl (HTTPException 400 ''No question found in the request.'')
               else Inr \<lparr>thread_id = ''user-'' @ user_id,
                         agent_input = [Question \<mapsto> PStr question, User_id \<mapsto> PStr user_id]\<rparr>))"

text \<open>
  \<^verbatim>\<open>Pipeline.pipe\<close>: the thread identifier is the request's conversation identifier,
  which is also passed as the user.
\<close>

definition pipe :: "bool \<Rightarrow> request_body \<Rightarrow> string + invocation" where
  "pipe agent_executor body =
     (if \<not> agent_executor
      then Inl ''Error: Agent executor is not initialized. Please check the pipeline logs.''
      else (let question = last_content (body_messages body);
                thread = (case conversation_id body of None \<Rightarrow> ''default-thread'' | Some c \<Rightarrow> c)
            in Inr \<lparr>thread_id = thread,
                      agent_input = [Question \<mapsto> PStr question, User_id \<mapsto> PStr thread]\<rparr>))"

section \<open>The checkpoint store\<close>

text \<open>
  Modelled from the spec: the checkpointer is the graph library's, not the repository's.
  As the spec's contracts of the Executor and of the Checkpoint Store have it, a snapshot
  of the pending step and of the state is appended to the thread's entries after every
  step, and no other thread's entries are touched. A turn invoked under a thread
  identifier that has entries resumes from the latest of them, the new input merged over
  its state: at the entry step when the earlier turn was finished, at the pending step
  when it was interrupted. A turn under an identifier without entries starts at the entry
  step with the input alone.
\<close>

type_synonym checkpoint = "node \<times> agent_state"

type_synonym checkpoint_store = "string \<Rightarrow> checkpoint list"

definition save_checkpoint :: "checkpoint_store \<Rightarrow> string \<Rightarrow> checkpoint \<Rightarrow> checkpoint_store" where
  "save_checkpoint store thread cp = store(thread := store thread @ [cp])"

definition load_latest :: "checkpoint_store \<Rightarrow> string \<Rightarrow> checkpoint option" where
  "load_latest store thread = (case store thread of [] \<Rightarrow> None | cps \<Rightarrow> Some (last cps))"

definition begin_turn :: "checkpoint_store \<Rightarrow> string \<Rightarrow> agent_state \<Rightarrow> world \<Rightarrow> config" where
  "begin_turn store thread input w =
     (case load_latest store thread of
        None \<Rightarrow> \<lparr>cur = Router, st = input, wld = w, events = []\<rparr>
      | Some (pending, s) \<Rightarrow>
          \<lparr>cur = (if pending = END then Router else pending), st = merge s input,
           wld = w, events = []\<rparr>)"

fun run ::
  "(node \<Rightarrow> node_fun) \<Rightarrow> nat \<Rightarrow> checkpoint_store \<Rightarrow> string \<Rightarrow> config
     \<Rightarrow> (exn + config) \<times> checkpoint_store" where
  "run nodes 0 store thread c = (Inr c, store)"
| "run nodes (Suc k) store thread c =
     (if cur c = END then (Inr c, store)
      else (case step nodes c of
              Inl e \<Rightarrow> (Inl e, store)
            | Inr c' \<Rightarrow> run nodes k (save_checkpoint store thread (cur c', st c')) thread c'))"

section \<open>Test doubles\<close>

text \<open>
  Scripted collaborators in the manner of the mocks of \<^verbatim>\<open>tests/test_suite.py\<close>: the
  replies of the model and of the database are read off lists (the last argument is the
  reply once the list is used up), the JSON parser knows the texts of a table and
  rejects every other text, the vector store accepts every write.
\<close>

definition side_effect :: "'a list \<Rightarrow> 'a \<Rightarrow> nat \<Rightarrow> 'a" where
  "side_effect xs d k = (if k < length xs then xs ! k else d)"

definition mock_loads :: "(string \<times> pyval) list \<Rightarrow> string \<Rightarrow> exn + pyval" where
  "mock_loads table text =
     (case map_of table text of
        None \<Rightarrow> Inl (Raised JSONDecodeError ''Expecting value'')
      | Some v \<Rightarrow> Inr v)"

definition mock_env ::
  "(nat \<Rightarrow> llm_outcome) \<Rightarrow> (nat \<Rightarrow> db_outcome) \<Rightarrow> (string \<times> pyval) list \<Rightarrow> env" where
  "mock_env llm db table =
     \<lparr>llm_reply = llm,
      db_reply = (\<lambda>k q. db k),
      store_reply = (\<lambda>k. None),
      json_loads = mock_loads table,
      json_dumps = (\<lambda>v. Inr []),
      validate_plan = (\<lambda>text. Inl (Raised ValidationError ''charts: Field required''))\<rparr>"

definition world0 :: world where
  "world0 = \<lparr>llm_calls = 0, db_calls = 0, executed = [], store_calls = 0, saved = []\<rparr>"

definition quoted :: "string \<Rightarrow> string" where
  "quoted s = CHR 0x22 # s @ [CHR 0x22]"

text \<open>The JSON text of an object with the one key \<open>route\<close>.\<close>

definition route_reply :: "string \<Rightarrow> string" where
  "route_reply label = ''{'' @ quoted ''route'' @ '': '' @ quoted label @ ''}''"

definition no_others :: "node \<Rightarrow> node_fun" where
  "no_others n s w = (Inr Map.empty, w)"

definition start :: "node \<Rightarrow> agent_state \<Rightarrow> config" where
  "start n s = \<lparr>cur = n, st = s, wld = world0, events = []\<rparr>"

text \<open>
  A state on the SQL path at its first arrival at \<^verbatim>\<open>query_execution\<close>, and
  scripted environments for it: one whose database rejects the first query and answers
  the corrected one, one whose database rejects every query with a message, one whose
  database fails every time with an exception that has no message, one whose model
  is unavailable, and one whose model proposes a statement that is no \<open>SELECT\<close>
  every time while the database would answer any query; the last goes with a state whose
  candidate query is that statement already.
\<close>

definition sql_state :: agent_state where
  "sql_state =
     [Question \<mapsto> PStr ''What are sales?'',
      Retrieved_schema \<mapsto> PStr ''Table: sales'',
      Few_shot_examples \<mapsto> PStr ''SQL Query: SELECT count(*)'',
      Generated_sql \<mapsto> PStr ''SELECT totl FROM sales'']"

definition retry_env :: env where
  "retry_env =
     mock_env
       (side_effect [Llm_returns (Some ''SELECT total FROM sales'')] (Llm_returns None))
       (side_effect [Execute_raises (Raised PsycopgError ''column totl does not exist''),
                     Fetched [PDict [(''total'', PInt 100)]]] No_description)
       []"

definition stubborn_env :: env where
  "stubborn_env =
     mock_env
       (\<lambda>k. Llm_returns (Some ''SELECT totl FROM sales''))
       (\<lambda>k. Execute_raises (Raised PsycopgError ''column totl does not exist''))
       []"

definition silent_env :: env where
  "silent_env =
     mock_env
       (\<lambda>k. Llm_returns (Some ''SELECT totl FROM sales''))
       (\<lambda>k. Execute_raises (Raised OtherError []))
       []"

definition offline_env :: env where
  "offline_env =
     mock_env
       (\<lambda>k. Llm_raises (Raised OtherError ''API unavailable''))
       (\<lambda>k. Execute_raises (Raised PsycopgError ''column totl does not exist''))
       []"

definition gate_env :: env where
  "gate_env =
     mock_env
       (\<lambda>k. Llm_returns (Some ''DROP TABLE sales''))
       (\<lambda>k. Fetched [])
       []"

definition drop_state :: agent_state where
  "drop_state =
     [Question \<mapsto> PStr ''What are sales?'',
      Retrieved_schema \<mapsto> PStr ''Table: sales'',
      Few_shot_examples \<mapsto> PStr ''SQL Query: SELECT count(*)'',
      Generated_sql \<mapsto> PStr ''DROP TABLE sales'']"

text \<open>A state with a history, and a model whose replies are no JSON.\<close>

definition chat_state :: agent_state where
  "chat_state =
     [Question \<mapsto> PStr ''What are sales?'',
      Chat_history \<mapsto> PList [PDict [(''type'', PStr ''human''), (''content'', PStr ''What are sales?'')]],
      Query_result \<mapsto> PList [PDict [(''total'', PInt 100)]]]"

definition chatty_env :: env where
  "chatty_env =
     mock_env (\<lambda>k. Llm_returns (Some ''Sure! The route is sql_query.'')) (\<lambda>k. Fetched []) []"

text \<open>
  The query texts \<^verbatim>\<open>execute_sql_query\<close> answers without asking the database: the
  blank ones and those that do not begin with \<open>SELECT\<close>.
\<close>

definition refused :: "string \<Rightarrow> bool" where
  "refused q = (strip q = [] \<or> \<not> startswith (upper (strip q)) ''SELECT'')"

text \<open>
  Inside the cycle: the run stands at one of its two steps, the keys the correction
  prompt indexes are present, the candidate query is a string, and at
  \<^verbatim>\<open>self_correction\<close> the key \<open>sql_error\<close>, which the execution step has just
  written, is present too.
\<close>

definition in_cycle :: "config \<Rightarrow> bool" where
  "in_cycle c =
     ((cur c = Query_execution \<or> cur c = Self_correction)
      \<and> st c Question \<noteq> None \<and> st c Retrieved_schema \<noteq> None
      \<and> (\<exists>q. st c Generated_sql = Some (PStr q))
      \<and> (cur c = Self_correction \<longrightarrow> st c Sql_error \<noteq> None))"

text \<open>The thread identifier an answer of \<^verbatim>\<open>chat_completions\<close> runs the executor under.\<close>

definition thread_of :: "(http_exception + invocation) \<times> nat \<Rightarrow> string option" where
  "thread_of r = (case fst r of Inl e \<Rightarrow> None | Inr call \<Rightarrow> Some (thread_id call))"

text \<open>Two requests of one conversation: the second carries the first and its answer.\<close>

definition first_request :: chat_request where
  "first_request =
     \<lparr>model = ''agent'',
      messages = [\<lparr>role = ''user'', content = ''What were total sales last month?''\<rparr>],
      stream = True\<rparr>"

definition second_request :: chat_request where
  "second_request =
     \<lparr>model = ''agent'',
      messages = [\<lparr>role = ''user'', content = ''What were total sales last month?''\<rparr>,
                  \<lparr>role = ''assistant'', content = ''Total sales were 12345.67.''\<rparr>,
                  \<lparr>role = ''user'', content = ''And the month before?''\<rparr>],
      stream = True\<rparr>"

text \<open>A source of identifiers that never repeats itself.\<close>

definition counting_uuid4 :: "nat \<Rightarrow> string" where
  "counting_uuid4 k = replicate (Suc k) (CHR ''a'')"

text \<open>No thread has a checkpoint yet.\<close>

definition no_checkpoints :: checkpoint_store where
  "no_checkpoints = (\<lambda>thread. [])"

text \<open>Two requests of one conversation as the pipeline receives them.\<close>

definition first_body :: request_body where
  "first_body =
     \<lparr>body_messages = [\<lparr>role = ''user'', content = ''What were total sales last month?''\<rparr>],
      body_user = Some ''alice'',
      conversation_id = Some ''conversation-1''\<rparr>"

definition second_body :: request_body where
  "second_body =
     \<lparr>body_messages = [\<lparr>role = ''user'', content = ''What were total sales last month?''\<rparr>,
                       \<lparr>role = ''assistant'', content = ''Total sales were 12345.67.''\<rparr>,
                       \<lparr>role = ''user'', content = ''And the month before?''\<rparr>],
      body_user = Some ''alice'',
      conversation_id = Some ''conversation-1''\<rparr>"





section \<open>The query tool\<close>

lemma execute_sql_query_str:
  "execute_sql_query env w (PStr q) = execute_sql_query_body env w q"
  by (simp add: execute_sql_query_def validate_str_def)

lemma execute_sql_query_not_str:
  assumes "\<forall>q. v \<noteq> PStr q"
  shows "\<exists>e. execute_sql_query env w v = (Inl e, w) \<and> class_of e = ValidationError"
  using assms by (cases v) (simp_all add: execute_sql_query_def validate_str_def)

lemma execute_sql_query_body_cases:
  "\<exists>r e w'. execute_sql_query_body env w q = (Inr (sql_result r e), w')
      \<and> ((r = PNone \<and> (\<exists>m. e = PStr m)) \<or> (e = PNone \<and> (\<exists>rows. r = PList rows)))"
  by (auto simp: execute_sql_query_body_def db_try_def sql_result_def Let_def
           split: db_outcome.splits)

lemma execute_sql_query_cases:
  "\<exists>r e w'. execute_sql_query env w (PStr q) = (Inr (sql_result r e), w')
      \<and> ((r = PNone \<and> (\<exists>m. e = PStr m)) \<or> (e = PNone \<and> (\<exists>rows. r = PList rows)))"
  by (simp only: execute_sql_query_str execute_sql_query_body_cases)

text \<open>
  Claim C9, as amended. On every string \<^verbatim>\<open>execute_sql_query\<close> returns, whatever the
  database does: the result is a dictionary with exactly the keys \<open>query_result\<close> and
  \<open>sql_error\<close>, no exception leaves the function, and \<open>query_result\<close> is null exactly
  when \<open>sql_error\<close> is a string; otherwise \<open>sql_error\<close> is null and
  \<open>query_result\<close> is a list of rows, possibly empty. An argument that is not a string
  does not reach the body: the tool's validation raises, nothing is returned and nothing
  is executed.
\<close>

theorem execute_sql_query_total_on_strings:
  "(\<exists>r e w'. execute_sql_query env w (PStr q) = (Inr (PDict [(''query_result'', r), (''sql_error'', e)]), w')
      \<and> (r = PNone) = (\<exists>m. e = PStr m)
      \<and> (r \<noteq> PNone) = (e = PNone \<and> (\<exists>rows. r = PList rows)))
   \<and> ((\<forall>q. v \<noteq> PStr q) \<longrightarrow>
        (\<exists>e. execute_sql_query env w v = (Inl e, w) \<and> class_of e = ValidationError))"
proof (intro conjI impI)
  from execute_sql_query_cases [of env w q]
  obtain r e w' where run: "execute_sql_query env w (PStr q) = (Inr (sql_result r e), w')"
    and inv: "(r = PNone \<and> (\<exists>m. e = PStr m)) \<or> (e = PNone \<and> (\<exists>rows. r = PList rows))"
    by (elim exE conjE)
  from inv have i1: "(r = PNone) = (\<exists>m. e = PStr m)"
    by auto
  from inv have i2: "(r \<noteq> PNone) = (e = PNone \<and> (\<exists>rows. r = PList rows))"
    by auto
  from run have run': "execute_sql_query env w (PStr q) = (Inr (PDict [(''query_result'', r), (''sql_error'', e)]), w')"
    by (simp only: sql_result_def)
  show "\<exists>r e w'. execute_sql_query env w (PStr q) = (Inr (PDict [(''query_result'', r), (''sql_error'', e)]), w')
      \<and> (r = PNone) = (\<exists>m. e = PStr m)
      \<and> (r \<noteq> PNone) = (e = PNone \<and> (\<exists>rows. r = PList rows))"
    by (intro exI conjI) (rule run', rule i1, rule i2)
next
  assume "\<forall>q. v \<noteq> PStr q"
  then show "\<exists>e. execute_sql_query env w v = (Inl e, w) \<and> class_of e = ValidationError"
    by (rule execute_sql_query_not_str)
qed

theorem execute_sql_query_total_on_strings_witness:
  "execute_sql_query (mock_env (\<lambda>k. Llm_returns None) (\<lambda>k. Execute_raises (Raised PsycopgError ''relation does not exist'')) [])
       world0 (PStr ''SELECT * FROM non_existent_table;'')
     = (Inr (PDict [(''query_result'', PNone), (''sql_error'', PStr ''relation does not exist'')]),
        world0\<lparr>db_calls := 1, executed := [''SELECT * FROM non_existent_table;'']\<rparr>)
   \<and> (\<exists>r e w'. execute_sql_query (mock_env (\<lambda>k. Llm_returns None) (\<lambda>k. Fetched []) []) world0 (PStr ''SELECT 1'')
          = (Inr (PDict [(''query_result'', r), (''sql_error'', e)]), w')
        \<and> (r = PNone) = (\<exists>m. e = PStr m)
        \<and> (r \<noteq> PNone) = (e = PNone \<and> (\<exists>rows. r = PList rows)))
   \<and> (\<exists>e. execute_sql_query (mock_env (\<lambda>k. Llm_returns None) (\<lambda>k. Fetched []) []) world0 (PInt 5)
          = (Inl e, world0) \<and> class_of e = ValidationError)"
proof (intro conjI)
  show "execute_sql_query (mock_env (\<lambda>k. Llm_returns None) (\<lambda>k. Execute_raises (Raised PsycopgError ''relation does not exist'')) [])
       world0 (PStr ''SELECT * FROM non_existent_table;'')
     = (Inr (PDict [(''query_result'', PNone), (''sql_error'', PStr ''relation does not exist'')]),
        world0\<lparr>db_calls := 1, executed := [''SELECT * FROM non_existent_table;'']\<rparr>)"
    by code_simp
  show "\<exists>r e w'. execute_sql_query (mock_env (\<lambda>k. Llm_returns None) (\<lambda>k. Fetched []) []) world0 (PStr ''SELECT 1'')
          = (Inr (PDict [(''query_result'', r), (''sql_error'', e)]), w')
        \<and> (r = PNone) = (\<exists>m. e = PStr m)
        \<and> (r \<noteq> PNone) = (e = PNone \<and> (\<exists>rows. r = PList rows))"
    by (rule execute_sql_query_total_on_strings [THEN conjunct1])
  have h: "\<forall>q. PInt 5 \<noteq> PStr q" by simp
  from execute_sql_query_total_on_strings [THEN conjunct2, THEN mp, OF h]
  show "\<exists>e. execute_sql_query (mock_env (\<lambda>k. Llm_returns None) (\<lambda>k. Fetched []) []) world0 (PInt 5)
          = (Inl e, world0) \<and> class_of e = ValidationError" .
qed

text \<open>
  Against C9 as stated: on the argument \<open>None\<close> the tool returns no dictionary; a
  \<^verbatim>\<open>ValidationError\<close> leaves it.
\<close>

theorem execute_sql_query_rejects_none:
  "execute_sql_query (mock_env (\<lambda>k. Llm_returns None) (\<lambda>k. Fetched []) []) world0 PNone
     = (Inl (Raised ValidationError ''sql_query: Input should be a valid string''), world0)
   \<and> (\<forall>r. fst (execute_sql_query (mock_env (\<lambda>k. Llm_returns None) (\<lambda>k. Fetched []) []) world0 PNone) \<noteq> Inr r)"
  by (simp add: execute_sql_query_def validate_str_def)

text \<open>
  Claim C6, as amended. The test before the database is a test of the first six
  characters: a query string whose stripped, upper-cased form does not start with
  \<open>SELECT\<close> is answered without any database call (the world is unchanged), with a
  null \<open>query_result\<close> and the security message, or the invalid-query message when the
  string is blank. A string that passes the test is handed to the database as it is,
  whatever follows the first word, and the answer is the database's.
\<close>

theorem execute_sql_query_gate:
  "(\<not> startswith (upper (strip q)) ''SELECT'' \<longrightarrow>
       execute_sql_query env w (PStr q) =
         (Inr (sql_result PNone (PStr (if strip q = [] then ''Invalid or empty SQL query provided.''
                                       else ''Security Error: Only SELECT queries are allowed.''))), w))
   \<and> (startswith (upper (strip q)) ''SELECT'' \<longrightarrow>
       execute_sql_query env w (PStr q) =
         (case db_reply env (db_calls w) q of
            Connect_raises e \<Rightarrow> (Inr (sql_result PNone (PStr (str_of e))), w\<lparr>db_calls := Suc (db_calls w)\<rparr>)
          | Execute_raises e \<Rightarrow> (Inr (sql_result PNone (PStr (str_of e))),
                                  w\<lparr>db_calls := Suc (db_calls w), executed := executed w @ [q]\<rparr>)
          | No_description \<Rightarrow> (Inr (sql_result (PList []) PNone),
                                w\<lparr>db_calls := Suc (db_calls w), executed := executed w @ [q]\<rparr>)
          | Fetched rows \<Rightarrow> (Inr (sql_result (PList rows) PNone),
                              w\<lparr>db_calls := Suc (db_calls w), executed := executed w @ [q]\<rparr>)))"
proof (intro conjI impI)
  assume "\<not> startswith (upper (strip q)) ''SELECT''"
  then show "execute_sql_query env w (PStr q) =
         (Inr (sql_result PNone (PStr (if strip q = [] then ''Invalid or empty SQL query provided.''
                                       else ''Security Error: Only SELECT queries are allowed.''))), w)"
    by (simp add: execute_sql_query_str execute_sql_query_body_def)
next
  assume sel: "startswith (upper (strip q)) ''SELECT''"
  then have "strip q \<noteq> []" by (auto simp: startswith_def upper_def)
  with sel show "execute_sql_query env w (PStr q) =
         (case db_reply env (db_calls w) q of
            Connect_raises e \<Rightarrow> (Inr (sql_result PNone (PStr (str_of e))), w\<lparr>db_calls := Suc (db_calls w)\<rparr>)
          | Execute_raises e \<Rightarrow> (Inr (sql_result PNone (PStr (str_of e))),
                                  w\<lparr>db_calls := Suc (db_calls w), executed := executed w @ [q]\<rparr>)
          | No_description \<Rightarrow> (Inr (sql_result (PList []) PNone),
                                w\<lparr>db_calls := Suc (db_calls w), executed := executed w @ [q]\<rparr>)
          | Fetched rows \<Rightarrow> (Inr (sql_result (PList rows) PNone),
                              w\<lparr>db_calls := Suc (db_calls w), executed := executed w @ [q]\<rparr>))"
    by (simp add: execute_sql_query_str execute_sql_query_body_def db_try_def Let_def
             split: db_outcome.splits)
qed

theorem execute_sql_query_gate_witness:
  "\<not> startswith (upper (strip ''UPDATE users SET name = 1;'')) ''SELECT''
   \<and> execute_sql_query (mock_env (\<lambda>k. Llm_returns None) (\<lambda>k. No_description) []) world0
        (PStr ''UPDATE users SET name = 1;'')
       = (Inr (sql_result PNone (PStr ''Security Error: Only SELECT queries are allowed.'')), world0)
   \<and> startswith (upper (strip '' select 1'')) ''SELECT''
   \<and> execute_sql_query (mock_env (\<lambda>k. Llm_returns None) (\<lambda>k. Fetched []) []) world0 (PStr '' select 1'')
       = (Inr (sql_result (PList []) PNone), world0\<lparr>db_calls := 1, executed := ['' select 1'']\<rparr>)"
proof -
  have a: "\<not> startswith (upper (strip ''UPDATE users SET name = 1;'')) ''SELECT''" by code_simp
  have b: "startswith (upper (strip '' select 1'')) ''SELECT''" by code_simp
  have c: "strip ''UPDATE users SET name = 1;'' \<noteq> []" by code_simp
  have d: "db_reply (mock_env (\<lambda>k. Llm_returns None) (\<lambda>k. Fetched []) []) (db_calls world0) '' select 1'' = Fetched []"
    by (simp add: mock_env_def)
  have e: "world0\<lparr>db_calls := Suc (db_calls world0), executed := executed world0 @ ['' select 1'']\<rparr>
            = world0\<lparr>db_calls := 1, executed := ['' select 1'']\<rparr>"
    by (simp add: world0_def)
  from execute_sql_query_gate [of "''UPDATE users SET name = 1;''" "mock_env (\<lambda>k. Llm_returns None) (\<lambda>k. No_description) []" world0] a c
  have f: "execute_sql_query (mock_env (\<lambda>k. Llm_returns None) (\<lambda>k. No_description) []) world0
        (PStr ''UPDATE users SET name = 1;'')
       = (Inr (sql_result PNone (PStr ''Security Error: Only SELECT queries are allowed.'')), world0)"
    by simp
  from execute_sql_query_gate [of "'' select 1''" "mock_env (\<lambda>k. Llm_returns None) (\<lambda>k. Fetched []) []" world0] b d e
  have g: "execute_sql_query (mock_env (\<lambda>k. Llm_returns None) (\<lambda>k. Fetched []) []) world0 (PStr '' select 1'')
       = (Inr (sql_result (PList []) PNone), world0\<lparr>db_calls := 1, executed := ['' select 1'']\<rparr>)"
    by simp
  show ?thesis by (intro conjI a b f g)
qed

text \<open>
  Against C6 as stated: a text that begins with \<open>SELECT\<close> and goes on to drop a table
  is not rejected; it is the text \<^verbatim>\<open>cur.execute\<close> receives.
\<close>

theorem select_prefix_reaches_database:
  "execute_sql_query (mock_env (\<lambda>k. Llm_returns None) (\<lambda>k. No_description) []) world0
       (PStr ''SELECT 1; DROP TABLE users;'')
     = (Inr (sql_result (PList []) PNone),
        world0\<lparr>db_calls := 1, executed := [''SELECT 1; DROP TABLE users;'']\<rparr>)"
  by code_simp

section \<open>Routing after execution\<close>

lemma query_execution_node_str:
  assumes "getv s Generated_sql = PStr q"
  shows "\<exists>r e w'. query_execution_node env s w =
       (Inr [Query_result \<mapsto> r, Sql_error \<mapsto> e, Generated_sql \<mapsto> PStr q], w')
     \<and> execute_sql_query env w (PStr q) = (Inr (sql_result r e), w')
     \<and> ((r = PNone \<and> (\<exists>m. e = PStr m)) \<or> (e = PNone \<and> (\<exists>rows. r = PList rows)))"
proof -
  from execute_sql_query_cases [of env w q]
  obtain r e w' where run: "execute_sql_query env w (PStr q) = (Inr (sql_result r e), w')"
    and inv: "(r = PNone \<and> (\<exists>m. e = PStr m)) \<or> (e = PNone \<and> (\<exists>rows. r = PList rows))"
    by (elim exE conjE)
  from run assms have "query_execution_node env s w =
       (Inr [Query_result \<mapsto> r, Sql_error \<mapsto> e, Generated_sql \<mapsto> PStr q], w')"
    by (simp add: query_execution_node_def sql_result_def dict_get_def Let_def)
  with run inv show ?thesis by (intro exI conjI)
qed

lemma query_execution_node_not_str:
  assumes "\<forall>q. getv s Generated_sql \<noteq> PStr q"
  shows "\<exists>e. query_execution_node env s w = (Inl e, w) \<and> class_of e = ValidationError"
proof -
  from execute_sql_query_not_str [OF assms, of env w]
  obtain e where "execute_sql_query env w (getv s Generated_sql) = (Inl e, w)"
    and "class_of e = ValidationError"
    by (elim exE conjE)
  then show ?thesis by (simp add: query_execution_node_def Let_def)
qed

lemma query_execution_node_Inr:
  assumes "query_execution_node env s w = (Inr u, w')"
  shows "\<exists>r e. u = [Query_result \<mapsto> r, Sql_error \<mapsto> e, Generated_sql \<mapsto> getv s Generated_sql]
     \<and> ((r = PNone \<and> (\<exists>m. e = PStr m)) \<or> (e = PNone \<and> (\<exists>rows. r = PList rows)))"
proof (cases "\<exists>q. getv s Generated_sql = PStr q")
  case True
  then obtain q where q: "getv s Generated_sql = PStr q" by (elim exE)
  from query_execution_node_str [OF q, of env w]
  obtain r e w1 where run: "query_execution_node env s w =
       (Inr [Query_result \<mapsto> r, Sql_error \<mapsto> e, Generated_sql \<mapsto> PStr q], w1)"
    and inv: "(r = PNone \<and> (\<exists>m. e = PStr m)) \<or> (e = PNone \<and> (\<exists>rows. r = PList rows))"
    by (elim exE conjE)
  from run assms q have "u = [Query_result \<mapsto> r, Sql_error \<mapsto> e, Generated_sql \<mapsto> getv s Generated_sql]"
    by simp
  with inv show ?thesis by (intro exI conjI)
next
  case False
  then have "\<forall>q. getv s Generated_sql \<noteq> PStr q" by simp
  from query_execution_node_not_str [OF this, of env w] assms show ?thesis by simp
qed

lemma edges_query_execution:
  "edges Query_execution s = Inr (if truthy (getv s Sql_error) then Self_correction else Summarization)"
  by (simp add: conditional_edge_def should_continue_to_summarization_def)

lemma edges_summarization:
  "edges Summarization s = Inr (if truthy (getv s Query_result) then Plan_visualization else Curate_memory)"
  by (simp add: conditional_edge_def should_continue_to_visualization_def)

text \<open>
  Claim C2. After \<^verbatim>\<open>query_execution\<close> the conditional edge selects
  \<^verbatim>\<open>self_correction\<close> exactly when \<open>sql_error\<close> is truthy and \<^verbatim>\<open>summarization\<close>
  otherwise, and two states with the same \<open>sql_error\<close> are routed alike: no other
  field is consulted. In a state the execution step produced, \<open>sql_error\<close> is null or
  a string, and truthy means a string that is not empty.
\<close>

theorem post_execution_routing:
  "edges Query_execution s = Inr (if truthy (getv s Sql_error) then Self_correction else Summarization)
   \<and> (should_continue_to_summarization s = ''self_correction'') = truthy (getv s Sql_error)
   \<and> (should_continue_to_summarization s = ''summarization'') = (\<not> truthy (getv s Sql_error))
   \<and> (s Sql_error = s' Sql_error \<longrightarrow>
        should_continue_to_summarization s = should_continue_to_summarization s'
        \<and> edges Query_execution s = edges Query_execution s')
   \<and> (query_execution_node env s w = (Inr u, w') \<longrightarrow>
        (\<exists>e. getv (merge s u) Sql_error = e \<and> (e = PNone \<or> (\<exists>m. e = PStr m))
           \<and> edges Query_execution (merge s u) =
               Inr (if e = PNone \<or> e = PStr [] then Summarization else Self_correction)))"
proof (intro conjI impI)
  show "edges Query_execution s = Inr (if truthy (getv s Sql_error) then Self_correction else Summarization)"
    by (rule edges_query_execution)
  show "(should_continue_to_summarization s = ''self_correction'') = truthy (getv s Sql_error)"
    by (simp add: should_continue_to_summarization_def)
  show "(should_continue_to_summarization s = ''summarization'') = (\<not> truthy (getv s Sql_error))"
    by (simp add: should_continue_to_summarization_def)
next
  assume same: "s Sql_error = s' Sql_error"
  then have g: "getv s Sql_error = getv s' Sql_error" by (simp add: getv_def)
  then show "should_continue_to_summarization s = should_continue_to_summarization s'"
    by (simp add: should_continue_to_summarization_def)
  from g show "edges Query_execution s = edges Query_execution s'"
    by (simp only: edges_query_execution)
next
  assume run: "query_execution_node env s w = (Inr u, w')"
  from query_execution_node_Inr [OF run]
  obtain r e where u: "u = [Query_result \<mapsto> r, Sql_error \<mapsto> e, Generated_sql \<mapsto> getv s Generated_sql]"
    and inv: "(r = PNone \<and> (\<exists>m. e = PStr m)) \<or> (e = PNone \<and> (\<exists>rows. r = PList rows))"
    by (elim exE conjE)
  from u have g: "getv (merge s u) Sql_error = e" by (simp add: merge_def getv_def)
  from inv have shape: "e = PNone \<or> (\<exists>m. e = PStr m)" by auto
  then have "truthy e = (\<not> (e = PNone \<or> e = PStr []))" by auto
  then have "(if truthy e then Self_correction else Summarization)
      = (if e = PNone \<or> e = PStr [] then Summarization else Self_correction)"
    by simp
  with g have "edges Query_execution (merge s u) =
      Inr (if e = PNone \<or> e = PStr [] then Summarization else Self_correction)"
    by (simp only: edges_query_execution)
  with g shape show "\<exists>e. getv (merge s u) Sql_error = e \<and> (e = PNone \<or> (\<exists>m. e = PStr m))
           \<and> edges Query_execution (merge s u) =
               Inr (if e = PNone \<or> e = PStr [] then Summarization else Self_correction)"
    by (intro exI conjI)
qed

theorem post_execution_routing_witness:
  "edges Query_execution [Sql_error \<mapsto> PStr ''column x does not exist''] = Inr Self_correction
   \<and> edges Query_execution [Sql_error \<mapsto> PNone, Question \<mapsto> PStr ''q''] = Inr Summarization
   \<and> edges Query_execution [Sql_error \<mapsto> PNone, Question \<mapsto> PStr ''q'']
       = edges Query_execution [Sql_error \<mapsto> PNone, Question \<mapsto> PStr ''other'', Query_result \<mapsto> PList []]"
proof -
  have t1: "truthy (getv [Sql_error \<mapsto> PStr ''column x does not exist''] Sql_error)"
    by (simp add: getv_def)
  have t2: "\<not> truthy (getv [Sql_error \<mapsto> PNone, Question \<mapsto> PStr ''q''] Sql_error)"
    by (simp add: getv_def)
  have t3: "[Sql_error \<mapsto> PNone, Question \<mapsto> PStr ''q''] Sql_error
      = [Sql_error \<mapsto> PNone, Question \<mapsto> PStr ''other'', Query_result \<mapsto> PList []] Sql_error"
    by simp
  have a: "edges Query_execution [Sql_error \<mapsto> PStr ''column x does not exist''] = Inr Self_correction"
    using post_execution_routing [of "[Sql_error \<mapsto> PStr ''column x does not exist'']", THEN conjunct1] t1
    by (simp only: if_True)
  have b: "edges Query_execution [Sql_error \<mapsto> PNone, Question \<mapsto> PStr ''q''] = Inr Summarization"
    using post_execution_routing [of "[Sql_error \<mapsto> PNone, Question \<mapsto> PStr ''q'']", THEN conjunct1] t2
    by (simp only: if_False)
  have c: "edges Query_execution [Sql_error \<mapsto> PNone, Question \<mapsto> PStr ''q'']
       = edges Query_execution [Sql_error \<mapsto> PNone, Question \<mapsto> PStr ''other'', Query_result \<mapsto> PList []]"
    using post_execution_routing [of "[Sql_error \<mapsto> PNone, Question \<mapsto> PStr ''q'']"
        "[Sql_error \<mapsto> PNone, Question \<mapsto> PStr ''other'', Query_result \<mapsto> PList []]",
        THEN conjunct2, THEN conjunct2, THEN conjunct2, THEN conjunct1, THEN mp, OF t3]
    by (rule conjunct2)
  show ?thesis by (intro conjI a b c)
qed

section \<open>The memory steps\<close>









section \<open>The router\<close>

lemma router_node_parsed:
  assumes "llm_reply env (llm_calls w) = Llm_returns (Some text)"
    and "json_loads env text = Inr (PDict kvs)"
  shows "router_node env s w =
     (Inr [Next_node \<mapsto> dict_get kvs ''route'' (PStr ''general_conversation'')],
      w\<lparr>llm_calls := Suc (llm_calls w)\<rparr>)"
  using assms by (simp add: router_node_def invoke_chat_completion_def)

lemma router_node_unparsed:
  assumes "llm_reply env (llm_calls w) = Llm_returns (Some text)"
    and "json_loads env text = Inl e"
  shows "router_node env s w = (Inl e, w\<lparr>llm_calls := Suc (llm_calls w)\<rparr>)"
  using assms by (simp add: router_node_def invoke_chat_completion_def)

lemma edges_router_label:
  "edges Router (merge s [Next_node \<mapsto> PStr label]) =
     (if label = ''general_conversation'' then Inr Direct_response
      else if label = ''sql_query'' then Inr Load_memory
      else Inl (Raised KeyError ''branch label''))"
  by (simp add: conditional_edge_def index_def merge_def)

text \<open>
  Claim C5, on the code. The default route of \<^verbatim>\<open>router_node\<close> covers a reply without
  the key \<open>route\<close>: the turn goes to \<^verbatim>\<open>direct_response\<close>. It does not cover a reply
  whose route is a label other than the two of the edge's dictionary: the node stores the
  label as it is, the edge finds no target for it, and the turn is aborted by a
  \<^verbatim>\<open>KeyError\<close> instead of taking the general path.
\<close>

theorem router_label_dispatch:
  assumes "cur c = Router"
    and "llm_reply env (llm_calls (wld c)) = Llm_returns (Some text)"
    and "json_loads env text = Inr (PDict kvs)"
  shows "(map_of kvs ''route'' = None \<longrightarrow>
            (\<exists>c'. step (create_agent_graph env others) c = Inr c' \<and> cur c' = Direct_response))
       \<and> (map_of kvs ''route'' = Some (PStr label) \<and> label \<noteq> ''general_conversation'' \<and> label \<noteq> ''sql_query''
            \<longrightarrow> step (create_agent_graph env others) c = Inl (Raised KeyError ''branch label''))"
proof (intro conjI impI)
  assume "map_of kvs ''route'' = None"
  then have "dict_get kvs ''route'' (PStr ''general_conversation'') = PStr ''general_conversation''"
    by (simp add: dict_get_def)
  with assms have "router_node env (st c) (wld c) =
      (Inr [Next_node \<mapsto> PStr ''general_conversation''], (wld c)\<lparr>llm_calls := Suc (llm_calls (wld c))\<rparr>)"
    by (simp add: router_node_parsed)
  with assms(1) show "\<exists>c'. step (create_agent_graph env others) c = Inr c' \<and> cur c' = Direct_response"
    by (simp add: step_def edges_router_label del: edges.simps)
next
  assume a: "map_of kvs ''route'' = Some (PStr label) \<and> label \<noteq> ''general_conversation'' \<and> label \<noteq> ''sql_query''"
  then have "dict_get kvs ''route'' (PStr ''general_conversation'') = PStr label"
    by (simp add: dict_get_def)
  with assms have "router_node env (st c) (wld c) =
      (Inr [Next_node \<mapsto> PStr label], (wld c)\<lparr>llm_calls := Suc (llm_calls (wld c))\<rparr>)"
    by (simp add: router_node_parsed)
  with assms(1) a show "step (create_agent_graph env others) c = Inl (Raised KeyError ''branch label'')"
    by (simp add: step_def edges_router_label del: edges.simps)
qed

theorem router_label_dispatch_witness:
  "step (create_agent_graph
          (mock_env (\<lambda>k. Llm_returns (Some (route_reply ''chart'')))
                    (\<lambda>k. No_description)
                    [(route_reply ''chart'', PDict [(''route'', PStr ''chart'')])])
          no_others)
        (start Router [Question \<mapsto> PStr ''Draw me a chart'', User_id \<mapsto> PStr ''u''])
     = Inl (Raised KeyError ''branch label'')"
proof -
  let ?env = "mock_env (\<lambda>k. Llm_returns (Some (route_reply ''chart'')))
                    (\<lambda>k. No_description)
                    [(route_reply ''chart'', PDict [(''route'', PStr ''chart'')])]"
  let ?c = "start Router [Question \<mapsto> PStr ''Draw me a chart'', User_id \<mapsto> PStr ''u'']"
  have h1: "cur ?c = Router" by (simp add: start_def)
  have h2: "llm_reply ?env (llm_calls (wld ?c)) = Llm_returns (Some (route_reply ''chart''))"
    by (simp add: mock_env_def)
  have h3: "json_loads ?env (route_reply ''chart'') = Inr (PDict [(''route'', PStr ''chart'')])"
    by (simp add: mock_env_def mock_loads_def)
  have h4: "map_of [(''route'', PStr ''chart'')] ''route'' = Some (PStr ''chart'')
      \<and> ''chart'' \<noteq> ''general_conversation'' \<and> ''chart'' \<noteq> ''sql_query''"
    by simp
  from router_label_dispatch [OF h1 h2 h3, where label = "''chart''" and others = no_others, THEN conjunct2, THEN mp, OF h4]
  show ?thesis .
qed

section \<open>Malformed replies of the model\<close>

lemma curate_memory_node_returns:
  "\<exists>facts w'. curate_memory_node env s w = (Inr [Facts_to_save \<mapsto> facts], w')"
  by (auto simp: curate_memory_node_def Let_def split: prod.splits sum.splits)

lemma curate_try_unparsed:
  assumes "llm_reply env (llm_calls w) = Llm_returns (Some text)"
    and "json_loads env text = Inl e"
  shows "\<exists>e' w'. curate_try env w = (Inl e', w')"
  using assms by (simp add: curate_try_def invoke_chat_completion_def)

lemma curate_memory_node_unparsed:
  assumes "llm_reply env (llm_calls w) = Llm_returns (Some text)"
    and "json_loads env text = Inl e"
  shows "fst (curate_memory_node env s w) = Inr [Facts_to_save \<mapsto> PList []]"
proof -
  from curate_try_unparsed [OF assms] obtain e' w' where "curate_try env w = (Inl e', w')"
    by (elim exE)
  then show ?thesis by (simp add: curate_memory_node_def Let_def)
qed

lemma plan_try_invalid:
  assumes "llm_reply env (llm_calls w) = Llm_returns (Some text)"
    and "validate_plan env text = Inl e"
  shows "\<exists>e' w'. plan_try env w data = (Inl e', w')"
  using assms by (simp add: plan_try_def invoke_chat_completion_def split: sum.splits)

lemma plan_visualizations_body_invalid:
  assumes "llm_reply env (llm_calls w) = Llm_returns (Some text)"
    and "validate_plan env text = Inl e"
    and "truthy data"
  shows "\<exists>msg w'. plan_visualizations_body env w data = (PDict [(''error'', PStr msg), (''plan'', PNone)], w')"
proof -
  from plan_try_invalid [OF assms(1,2), of data] obtain e' w' where "plan_try env w data = (Inl e', w')"
    by (elim exE)
  with assms(3) show ?thesis by (simp add: plan_visualizations_body_def)
qed

lemma visualization_planning_node_invalid:
  assumes "llm_reply env (llm_calls w) = Llm_returns (Some text)"
    and "validate_plan env text = Inl e"
    and "\<not> truthy (getv s Query_result)
         \<or> ((\<exists>qt. s Question = Some (PStr qt))
             \<and> (\<exists>rows. getv s Query_result = PList rows \<and> list_all is_dict rows))"
  shows "fst (visualization_planning_node env s w) = Inr [Visualization_plan \<mapsto> PNone]"
proof (cases "truthy (getv s Query_result)")
  case False
  then show ?thesis by (simp add: visualization_planning_node_def Let_def)
next
  case True
  with assms(3) obtain qt rows where q: "s Question = Some (PStr qt)"
    and rows: "getv s Query_result = PList rows" and typed: "list_all is_dict rows"
    by auto
  from True rows have t: "truthy (PList rows)" by simp
  from plan_visualizations_body_invalid [OF assms(1,2) t]
  obtain msg w' where "plan_visualizations_body env w (PList rows)
      = (PDict [(''error'', PStr msg), (''plan'', PNone)], w')"
    by (elim exE)
  with True q rows typed show ?thesis
    by (simp add: visualization_planning_node_def plan_visualizations_def validate_str_def
                  validate_rows_def Let_def index_def dict_get_def)
qed

text \<open>
  Claim C7, on the code. A reply that the JSON parser rejects is caught in
  \<^verbatim>\<open>curate_memory_node\<close>, which falls back to the empty fact list, and a reply that
  fails the plan's validation is caught in \<^verbatim>\<open>plan_visualizations\<close>, so that the
  planning step stores a null plan whenever the tool's body is reached, that is with a
  question that is a string and a result that is a list of rows.
  \<^verbatim>\<open>router_node\<close> parses the reply with no handler:
  the parser's exception leaves the node and aborts the turn, and no default route is
  taken.
\<close>

theorem malformed_reply_handling:
  assumes "llm_reply env (llm_calls w) = Llm_returns (Some text)"
    and "json_loads env text = Inl e"
    and "validate_plan env text = Inl e'"
  shows "fst (router_node env s w) = Inl e
       \<and> (cur c = Router \<and> st c = s \<and> wld c = w \<longrightarrow> step (create_agent_graph env others) c = Inl e)
       \<and> fst (curate_memory_node env s w) = Inr [Facts_to_save \<mapsto> PList []]
       \<and> (\<not> truthy (getv s Query_result)
            \<or> ((\<exists>qt. s Question = Some (PStr qt))
                \<and> (\<exists>rows. getv s Query_result = PList rows \<and> list_all is_dict rows))
          \<longrightarrow> fst (visualization_planning_node env s w) = Inr [Visualization_plan \<mapsto> PNone])"
proof (intro conjI impI)
  from assms(1,2) show r: "fst (router_node env s w) = Inl e"
    by (simp add: router_node_unparsed)
  show "fst (curate_memory_node env s w) = Inr [Facts_to_save \<mapsto> PList []]"
    by (rule curate_memory_node_unparsed [OF assms(1,2)])
next
  assume "cur c = Router \<and> st c = s \<and> wld c = w"
  with assms(1,2) show "step (create_agent_graph env others) c = Inl e"
    by (simp add: step_def router_node_unparsed)
next
  assume "\<not> truthy (getv s Query_result)
            \<or> ((\<exists>qt. s Question = Some (PStr qt))
                \<and> (\<exists>rows. getv s Query_result = PList rows \<and> list_all is_dict rows))"
  then show "fst (visualization_planning_node env s w) = Inr [Visualization_plan \<mapsto> PNone]"
    by (rule visualization_planning_node_invalid [OF assms(1,3)])
qed

theorem malformed_reply_handling_witness:
  "step (create_agent_graph chatty_env no_others) (start Router chat_state)
     = Inl (Raised JSONDecodeError ''Expecting value'')
   \<and> fst (curate_memory_node chatty_env chat_state world0) = Inr [Facts_to_save \<mapsto> PList []]
   \<and> snd (curate_memory_node chatty_env chat_state world0) = world0\<lparr>llm_calls := 1\<rparr>
   \<and> fst (visualization_planning_node chatty_env chat_state world0) = Inr [Visualization_plan \<mapsto> PNone]"
proof -
  have h1: "llm_reply chatty_env (llm_calls world0) = Llm_returns (Some ''Sure! The route is sql_query.'')"
    by (simp add: chatty_env_def mock_env_def)
  have h2: "json_loads chatty_env ''Sure! The route is sql_query.'' = Inl (Raised JSONDecodeError ''Expecting value'')"
    by (simp add: chatty_env_def mock_env_def mock_loads_def)
  have h3: "validate_plan chatty_env ''Sure! The route is sql_query.'' = Inl (Raised ValidationError ''charts: Field required'')"
    by (simp add: chatty_env_def mock_env_def)
  have h4: "cur (start Router chat_state) = Router \<and> st (start Router chat_state) = chat_state
      \<and> wld (start Router chat_state) = world0"
    by (simp add: start_def)
  have h5: "\<not> truthy (getv chat_state Query_result)
            \<or> ((\<exists>qt. chat_state Question = Some (PStr qt))
                \<and> (\<exists>rows. getv chat_state Query_result = PList rows \<and> list_all is_dict rows))"
    by (simp add: chat_state_def getv_def)
  note all = malformed_reply_handling [OF h1 h2 h3, where s = chat_state
      and c = "start Router chat_state" and others = no_others]
  from all [THEN conjunct2, THEN conjunct1, THEN mp, OF h4]
  have a: "step (create_agent_graph chatty_env no_others) (start Router chat_state)
      = Inl (Raised JSONDecodeError ''Expecting value'')" .
  from all [THEN conjunct2, THEN conjunct2, THEN conjunct1]
  have b: "fst (curate_memory_node chatty_env chat_state world0) = Inr [Facts_to_save \<mapsto> PList []]" .
  have b': "snd (curate_memory_node chatty_env chat_state world0) = world0\<lparr>llm_calls := 1\<rparr>"
    by (simp add: curate_memory_node_def curate_try_def invoke_chat_completion_def chat_state_def
                  chatty_env_def mock_env_def mock_loads_def getv_def world0_def Let_def)
  from all [THEN conjunct2, THEN conjunct2, THEN conjunct2, THEN mp, OF h5]
  have d: "fst (visualization_planning_node chatty_env chat_state world0) = Inr [Visualization_plan \<mapsto> PNone]" .
  show ?thesis by (intro conjI a b b' d)
qed

section \<open>Thread identifiers and checkpoints\<close>

lemma chat_completions_ok:
  assumes "chat_completions uuid4 drawn checkpointer request = (Inr call, drawn')"
  shows "thread_id call = uuid4 drawn \<and> drawn' = Suc drawn
       \<and> agent_input call Chat_history = Some (PList (map to_message (messages request)))
       \<and> (\<exists>q. last_user_message (messages request) = Some q \<and> q \<noteq> [] \<and> agent_input call Question = Some (PStr q))"
  using assms
  by (auto simp: chat_completions_def split: if_splits option.splits)

lemma pipe_thread_id:
  assumes "pipe executor body = Inr call"
  shows "thread_id call = (case conversation_id body of None \<Rightarrow> ''default-thread'' | Some cid \<Rightarrow> cid)"
  using assms by (auto simp: pipe_def Let_def split: if_splits)

lemma main_thread_id:
  assumes "main_chat_completions executor body = Inr call"
  shows "thread_id call = ''user-'' @ (case body_user body of None \<Rightarrow> ''default-user'' | Some u \<Rightarrow> u)"
  using assms by (auto simp: main_chat_completions_def Let_def split: if_splits)

lemma run_other_threads:
  "thread' \<noteq> thread \<Longrightarrow> snd (run nodes k store thread c) thread' = store thread'"
proof (induction k arbitrary: store c)
  case 0
  show ?case by simp
next
  case (Suc k)
  show ?case
  proof (cases "cur c = END")
    case True
    then show ?thesis by simp
  next
    case False
    show ?thesis
    proof (cases "step nodes c")
      case (Inl e)
      with False show ?thesis by simp
    next
      case (Inr c1)
      from Suc.prems have kept: "save_checkpoint store thread (cur c1, st c1) thread' = store thread'"
        by (simp add: save_checkpoint_def)
      from Suc.IH [OF Suc.prems, of "save_checkpoint store thread (cur c1, st c1)" c1]
      have "snd (run nodes k (save_checkpoint store thread (cur c1, st c1)) thread c1) thread' = store thread'"
        by (simp only: kept)
      with False Inr show ?thesis by simp
    qed
  qed
qed

lemma load_latest_last:
  "load_latest store thread = (if store thread = [] then None else Some (last (store thread)))"
  by (cases "store thread") (simp_all add: load_latest_def)

lemma load_latest_saved:
  "load_latest (save_checkpoint store thread cp) thread = Some cp"
  by (simp add: load_latest_last save_checkpoint_def)

lemma run_latest:
  "load_latest store thread = Some (cur c, st c) \<Longrightarrow> fst (run nodes k store thread c) = Inr c'
     \<Longrightarrow> load_latest (snd (run nodes k store thread c)) thread = Some (cur c', st c')"
proof (induction k arbitrary: store c)
  case 0
  then show ?case by simp
next
  case (Suc k)
  show ?case
  proof (cases "cur c = END")
    case True
    with Suc.prems show ?thesis by simp
  next
    case False
    show ?thesis
    proof (cases "step nodes c")
      case (Inl e)
      with False Suc.prems(2) show ?thesis by simp
    next
      case (Inr c1)
      let ?store = "save_checkpoint store thread (cur c1, st c1)"
      have l: "load_latest ?store thread = Some (cur c1, st c1)" by (rule load_latest_saved)
      from False Inr Suc.prems(2) have r: "fst (run nodes k ?store thread c1) = Inr c'" by simp
      from Suc.IH [OF l r] False Inr show ?thesis by simp
    qed
  qed
qed

lemma run_checkpoints_last_state:
  assumes "cur c \<noteq> END" and "fst (run nodes (Suc k) store thread c) = Inr c'"
  shows "load_latest (snd (run nodes (Suc k) store thread c)) thread = Some (cur c', st c')"
proof (cases "step nodes c")
  case (Inl e)
  with assms show ?thesis by simp
next
  case (Inr c1)
  let ?store = "save_checkpoint store thread (cur c1, st c1)"
  have l: "load_latest ?store thread = Some (cur c1, st c1)" by (rule load_latest_saved)
  from assms Inr have r: "fst (run nodes k ?store thread c1) = Inr c'" by simp
  from run_latest [OF l r] assms(1) Inr show ?thesis by simp
qed

text \<open>
  Claim C8, as amended. Checkpoints are kept per thread identifier: a turn writes to the
  entries of its own identifier only, and after a turn that made a step the latest entry
  is the state the turn ended in. A turn invoked under an identifier that has entries
  starts from the latest of them with the new input merged over it, so that a
  \<open>chat_history\<close> the input does not give is the stored one; under an identifier
  without entries it starts at the entry step with the input alone. The identifier is
  supplied by the entry point: \<^verbatim>\<open>langgraph_agent_pipe.py\<close> takes the request's
  conversation identifier and \<^verbatim>\<open>app/main.py\<close> the request's user, so that two
  requests of one conversation run under the same identifier there;
  \<^verbatim>\<open>app/api.py\<close> draws the next \<^verbatim>\<open>uuid4\<close> for every request, so that two
  successive requests share an identifier exactly when the source repeats itself, and
  the history of a turn is the request's own message list.
\<close>

theorem thread_keyed_checkpoints:
  "(thread' \<noteq> thread \<longrightarrow> snd (run nodes k store thread c) thread' = store thread')
   \<and> (cur c \<noteq> END \<and> fst (run nodes (Suc k) store thread c) = Inr c'
        \<longrightarrow> load_latest (snd (run nodes (Suc k) store thread c)) thread = Some (cur c', st c'))
   \<and> (load_latest store thread = Some (pending, s) \<longrightarrow>
        st (begin_turn store thread input w) = merge s input
        \<and> cur (begin_turn store thread input w) = (if pending = END then Router else pending)
        \<and> (input Chat_history = None \<longrightarrow> st (begin_turn store thread input w) Chat_history = s Chat_history))
   \<and> (store thread = [] \<longrightarrow>
        begin_turn store thread input w = \<lparr>cur = Router, st = input, wld = w, events = []\<rparr>)
   \<and> (pipe executor body = Inr call \<and> pipe executor body' = Inr call'
        \<and> conversation_id body = conversation_id body' \<longrightarrow> thread_id call = thread_id call')
   \<and> (main_chat_completions executor body = Inr call \<and> main_chat_completions executor body' = Inr call'
        \<and> body_user body = body_user body' \<longrightarrow> thread_id call = thread_id call')
   \<and> (chat_completions uuid4 drawn checkpointer request = (Inr call, drawn') \<longrightarrow>
        thread_id call = uuid4 drawn \<and> drawn' = Suc drawn
        \<and> agent_input call Chat_history = Some (PList (map to_message (messages request))))
   \<and> (chat_completions uuid4 drawn checkpointer request = (Inr call, drawn')
        \<and> chat_completions uuid4 drawn' checkpointer request' = (Inr call', drawn'') \<longrightarrow>
        (thread_id call = thread_id call') = (uuid4 drawn = uuid4 (Suc drawn)))"
proof (intro conjI impI)
  assume "thread' \<noteq> thread"
  then show "snd (run nodes k store thread c) thread' = store thread'"
    by (rule run_other_threads)
next
  assume h: "cur c \<noteq> END \<and> fst (run nodes (Suc k) store thread c) = Inr c'"
  from h have a: "cur c \<noteq> END" by (rule conjunct1)
  from h have b: "fst (run nodes (Suc k) store thread c) = Inr c'" by (rule conjunct2)
  show "load_latest (snd (run nodes (Suc k) store thread c)) thread = Some (cur c', st c')"
    by (rule run_checkpoints_last_state [OF a b])
next
  assume l: "load_latest store thread = Some (pending, s)"
  then show "st (begin_turn store thread input w) = merge s input"
    by (simp add: begin_turn_def)
  from l show "cur (begin_turn store thread input w) = (if pending = END then Router else pending)"
    by (simp add: begin_turn_def)
  assume "input Chat_history = None"
  with l show "st (begin_turn store thread input w) Chat_history = s Chat_history"
    by (simp add: begin_turn_def merge_def map_add_def)
next
  assume "store thread = []"
  then show "begin_turn store thread input w = \<lparr>cur = Router, st = input, wld = w, events = []\<rparr>"
    by (simp add: begin_turn_def load_latest_def)
next
  assume "pipe executor body = Inr call \<and> pipe executor body' = Inr call'
        \<and> conversation_id body = conversation_id body'"
  then have a: "pipe executor body = Inr call" and b: "pipe executor body' = Inr call'"
    and c: "conversation_id body = conversation_id body'" by simp_all
  from pipe_thread_id [OF a] pipe_thread_id [OF b] c show "thread_id call = thread_id call'" by simp
next
  assume "main_chat_completions executor body = Inr call \<and> main_chat_completions executor body' = Inr call'
        \<and> body_user body = body_user body'"
  then have a: "main_chat_completions executor body = Inr call"
    and b: "main_chat_completions executor body' = Inr call'"
    and c: "body_user body = body_user body'" by simp_all
  from main_thread_id [OF a] main_thread_id [OF b] c show "thread_id call = thread_id call'" by simp
next
  assume a: "chat_completions uuid4 drawn checkpointer request = (Inr call, drawn')"
  from chat_completions_ok [OF a]
  show "thread_id call = uuid4 drawn" and "drawn' = Suc drawn"
    and "agent_input call Chat_history = Some (PList (map to_message (messages request)))"
    by simp_all
next
  assume ab: "chat_completions uuid4 drawn checkpointer request = (Inr call, drawn')
        \<and> chat_completions uuid4 drawn' checkpointer request' = (Inr call', drawn'')"
  from ab chat_completions_ok [of uuid4 drawn checkpointer request call drawn']
  have 1: "thread_id call = uuid4 drawn" and 2: "drawn' = Suc drawn" by simp_all
  from ab chat_completions_ok [of uuid4 drawn' checkpointer request' call' drawn'']
  have 3: "thread_id call' = uuid4 drawn'" by simp
  from 1 2 3 show "(thread_id call = thread_id call') = (uuid4 drawn = uuid4 (Suc drawn))" by simp
qed

lemma first_turn:
  "chat_completions counting_uuid4 0 True first_request =
     (Inr \<lparr>thread_id = ''a'',
           agent_input = [Question \<mapsto> PStr ''What were total sales last month?'',
                          Chat_history \<mapsto> PList (map to_message (messages first_request)),
                          User_id \<mapsto> PStr ''open-webui-user'',
                          User_response \<mapsto> PStr ''approve'']\<rparr>, Suc 0)"
  by (simp add: chat_completions_def last_user_message_def first_request_def counting_uuid4_def)

lemma second_turn:
  "chat_completions counting_uuid4 (Suc 0) True second_request =
     (Inr \<lparr>thread_id = ''aa'',
           agent_input = [Question \<mapsto> PStr ''And the month before?'',
                          Chat_history \<mapsto> PList (map to_message (messages second_request)),
                          User_id \<mapsto> PStr ''open-webui-user'',
                          User_response \<mapsto> PStr ''approve'']\<rparr>, Suc (Suc 0))"
  by (simp add: chat_completions_def last_user_message_def second_request_def counting_uuid4_def)

lemma pipe_first: "pipe True first_body =
    Inr \<lparr>thread_id = ''conversation-1'',
         agent_input = [Question \<mapsto> PStr ''What were total sales last month?'',
                        User_id \<mapsto> PStr ''conversation-1'']\<rparr>"
  by (simp add: pipe_def first_body_def last_content_def Let_def)

lemma pipe_second: "pipe True second_body =
    Inr \<lparr>thread_id = ''conversation-1'',
         agent_input = [Question \<mapsto> PStr ''And the month before?'',
                        User_id \<mapsto> PStr ''conversation-1'']\<rparr>"
  by (simp add: pipe_def second_body_def last_content_def Let_def)

lemma finished_turn:
  "\<exists>c'. fst (run (create_agent_graph chatty_env no_others) (Suc 0) no_checkpoints ''conversation-1''
              (start Save_memory chat_state)) = Inr c'
        \<and> cur c' = END \<and> st c' = chat_state"
  by (simp add: step_def start_def save_memory_node_def getv_def chat_state_def merge_def Let_def)

theorem thread_keyed_checkpoints_witness:
  "thread_of (chat_completions counting_uuid4 0 True first_request) = Some (counting_uuid4 0)
   \<and> counting_uuid4 0 \<noteq> counting_uuid4 (Suc 0)
   \<and> (\<exists>call call'. pipe True first_body = Inr call \<and> pipe True second_body = Inr call'
          \<and> thread_id call = thread_id call')
   \<and> load_latest (snd (run (create_agent_graph chatty_env no_others) (Suc 0) no_checkpoints ''conversation-1''
                          (start Save_memory chat_state))) ''conversation-1''
       = Some (END, chat_state)
   \<and> st (begin_turn (snd (run (create_agent_graph chatty_env no_others) (Suc 0) no_checkpoints ''conversation-1''
                               (start Save_memory chat_state)))
            ''conversation-1'' [Question \<mapsto> PStr ''And the month before?''] world0) Chat_history
       = chat_state Chat_history
   \<and> begin_turn (snd (run (create_agent_graph chatty_env no_others) (Suc 0) no_checkpoints ''conversation-1''
                          (start Save_memory chat_state)))
         ''conversation-2'' [Question \<mapsto> PStr ''And the month before?''] world0
       = \<lparr>cur = Router, st = [Question \<mapsto> PStr ''And the month before?''], wld = world0, events = []\<rparr>"
proof -
  let ?G = "create_agent_graph chatty_env no_others"
  let ?run = "run ?G (Suc 0) no_checkpoints ''conversation-1'' (start Save_memory chat_state)"
  let ?input = "[Question \<mapsto> PStr ''And the month before?'']"
  note api = thread_keyed_checkpoints [THEN conjunct2, THEN conjunct2, THEN conjunct2, THEN conjunct2,
      THEN conjunct2, THEN conjunct2, THEN conjunct1]
  from api [of counting_uuid4 0 True first_request _ "Suc 0", THEN mp, OF first_turn]
  have "thread_id \<lparr>thread_id = ''a'',
           agent_input = [Question \<mapsto> PStr ''What were total sales last month?'',
                          Chat_history \<mapsto> PList (map to_message (messages first_request)),
                          User_id \<mapsto> PStr ''open-webui-user'',
                          User_response \<mapsto> PStr ''approve'']\<rparr> = counting_uuid4 0"
    by (rule conjunct1)
  then have a: "thread_of (chat_completions counting_uuid4 0 True first_request) = Some (counting_uuid4 0)"
    by (simp add: first_turn thread_of_def)
  have b: "counting_uuid4 0 \<noteq> counting_uuid4 (Suc 0)" by (simp add: counting_uuid4_def)
  have same: "pipe True first_body = Inr \<lparr>thread_id = ''conversation-1'',
         agent_input = [Question \<mapsto> PStr ''What were total sales last month?'',
                        User_id \<mapsto> PStr ''conversation-1'']\<rparr>
      \<and> pipe True second_body = Inr \<lparr>thread_id = ''conversation-1'',
         agent_input = [Question \<mapsto> PStr ''And the month before?'',
                        User_id \<mapsto> PStr ''conversation-1'']\<rparr>
      \<and> conversation_id first_body = conversation_id second_body"
  proof (intro conjI)
    show "conversation_id first_body = conversation_id second_body"
      by (simp add: first_body_def second_body_def)
  qed (rule pipe_first, rule pipe_second)
  note pipes = thread_keyed_checkpoints [THEN conjunct2, THEN conjunct2, THEN conjunct2, THEN conjunct2,
      THEN conjunct1]
  from pipes [THEN mp, OF same]
  have eq: "thread_id \<lparr>thread_id = ''conversation-1'',
         agent_input = [Question \<mapsto> PStr ''What were total sales last month?'',
                        User_id \<mapsto> PStr ''conversation-1'']\<rparr>
      = thread_id \<lparr>thread_id = ''conversation-1'',
         agent_input = [Question \<mapsto> PStr ''And the month before?'',
                        User_id \<mapsto> PStr ''conversation-1'']\<rparr>" .
  have p: "\<exists>call call'. pipe True first_body = Inr call \<and> pipe True second_body = Inr call'
          \<and> thread_id call = thread_id call'"
    by (intro exI conjI) (rule pipe_first, rule pipe_second, rule eq)
  from finished_turn obtain c' where r: "fst ?run = Inr c'" and cu: "cur c' = END" and s: "st c' = chat_state"
    by (elim exE conjE)
  have "cur (start Save_memory chat_state) \<noteq> END" by (simp add: start_def)
  with r have "cur (start Save_memory chat_state) \<noteq> END \<and> fst ?run = Inr c'"
    by (intro conjI)
  from thread_keyed_checkpoints [where store = no_checkpoints and thread = "''conversation-1''"
      and nodes = ?G and k = 0 and c = "start Save_memory chat_state" and c' = c',
      THEN conjunct2, THEN conjunct1, THEN mp, OF this] cu s
  have l: "load_latest (snd ?run) ''conversation-1'' = Some (END, chat_state)" by simp
  note resume = thread_keyed_checkpoints [where store = "snd ?run" and thread = "''conversation-1''"
      and input = ?input and w = world0, THEN conjunct2, THEN conjunct2, THEN conjunct1]
  have none: "?input Chat_history = None" by simp
  from resume [THEN mp, OF l, THEN conjunct2, THEN conjunct2, THEN mp, OF none]
  have h: "st (begin_turn (snd ?run) ''conversation-1'' ?input world0) Chat_history = chat_state Chat_history" .
  have "''conversation-2'' \<noteq> ''conversation-1''" by simp
  from thread_keyed_checkpoints [where store = no_checkpoints and thread = "''conversation-1''"
      and thread' = "''conversation-2''" and nodes = ?G and k = "Suc 0"
      and c = "start Save_memory chat_state", THEN conjunct1, THEN mp, OF this]
  have "snd ?run ''conversation-2'' = no_checkpoints ''conversation-2''" .
  then have empty: "snd ?run ''conversation-2'' = []" by (simp add: no_checkpoints_def)
  note fresh = thread_keyed_checkpoints [where store = "snd ?run" and thread = "''conversation-2''"
      and input = ?input and w = world0, THEN conjunct2, THEN conjunct2, THEN conjunct2, THEN conjunct1]
  from fresh [THEN mp, OF empty]
  have f: "begin_turn (snd ?run) ''conversation-2'' ?input world0
      = \<lparr>cur = Router, st = ?input, wld = world0, events = []\<rparr>" .
  show ?thesis by (intro conjI a b p l h f)
qed

text \<open>
  Against C8 as stated: through \<^verbatim>\<open>app/api.py\<close> two requests of one conversation,
  the second carrying the first and its answer, run under different thread identifiers.
\<close>

theorem same_conversation_distinct_threads:
  "thread_of (chat_completions counting_uuid4 0 True first_request) = Some ''a''
   \<and> thread_of (chat_completions counting_uuid4 (Suc 0) True second_request) = Some ''aa''
   \<and> thread_of (chat_completions counting_uuid4 0 True first_request)
       \<noteq> thread_of (chat_completions counting_uuid4 (Suc 0) True second_request)"
  by (simp add: first_turn second_turn thread_of_def)

section \<open>Runs of the executor\<close>

lemma step_Inr:
  assumes "step nodes c = Inr c'"
  shows "\<exists>u w'. nodes (cur c) (st c) (wld c) = (Inr u, w') \<and> st c' = merge (st c) u \<and> wld c' = w'
       \<and> events c' = events c @ [(cur c, u)] \<and> edges (cur c) (merge (st c) u) = Inr (cur c')"
  using assms by (auto simp: step_def split: prod.splits sum.splits)

lemma steps_Suc:
  assumes "cur c \<noteq> END" and "steps nodes (Suc k) c = Inr c'"
  shows "\<exists>c1. step nodes c = Inr c1 \<and> steps nodes k c1 = Inr c'"
  using assms by (auto split: sum.splits)

lemma steps_END: "cur c = END \<Longrightarrow> steps nodes k c = Inr c"
  by (cases k) auto

lemma steps_step:
  assumes "cur c \<noteq> END" and "step nodes c = Inr c1" and "steps nodes k c1 = Inr c'"
  shows "steps nodes (Suc k) c = Inr c'"
  using assms by simp

lemma steps_snoc:
  "steps nodes n c0 = Inr c \<Longrightarrow> cur c \<noteq> END \<Longrightarrow> step nodes c = Inr c1
     \<Longrightarrow> steps nodes (Suc n) c0 = Inr c1"
proof (induction n arbitrary: c0)
  case 0
  then show ?case by simp
next
  case (Suc n)
  show ?case
  proof (cases "cur c0 = END")
    case True
    with Suc.prems(1) have "c = c0" by simp
    with True Suc.prems(2) show ?thesis by simp
  next
    case False
    from steps_Suc [OF False Suc.prems(1)] obtain c' where s: "step nodes c0 = Inr c'"
      and rest: "steps nodes n c' = Inr c" by (elim exE conjE)
    from Suc.IH [OF rest Suc.prems(2,3)] have "steps nodes (Suc n) c' = Inr c1" .
    from steps_step [OF False s this] show ?thesis .
  qed
qed

lemma executions_append: "executions n (xs @ ys) = executions n xs + executions n ys"
  by (simp add: executions_def)

lemma attempts_append: "attempts (xs @ ys) = attempts xs @ attempts ys"
  by (simp add: attempts_def)

lemma executions_outside:
  assumes "fst ` set evs \<subseteq> R" and "n \<notin> R"
  shows "executions n evs = 0"
proof -
  from assms have "\<forall>ev \<in> set evs. fst ev \<noteq> n" by auto
  then have "filter (\<lambda>ev. fst ev = n) evs = []" by (simp add: filter_empty_conv)
  then show ?thesis by (simp add: executions_def)
qed

lemma attempts_outside:
  assumes "fst ` set evs \<subseteq> R" and "Query_execution \<notin> R"
  shows "attempts evs = []"
proof -
  from assms have "\<forall>ev \<in> set evs. fst ev \<noteq> Query_execution" by auto
  then have "filter (\<lambda>ev. fst ev = Query_execution) evs = []" by (simp add: filter_empty_conv)
  then show ?thesis by (simp add: attempts_def)
qed

lemma region_closed:
  assumes closed: "\<And>n s n'. n \<in> R \<Longrightarrow> edges n s = Inr n' \<Longrightarrow> n' \<in> R"
  shows "cur c \<in> R \<Longrightarrow> steps nodes k c = Inr c'
     \<Longrightarrow> cur c' \<in> R \<and> (\<exists>evs. events c' = events c @ evs \<and> fst ` set evs \<subseteq> R)"
proof (induction k arbitrary: c)
  case 0
  then show ?case by simp
next
  case (Suc k)
  show ?case
  proof (cases "cur c = END")
    case True
    with Suc.prems show ?thesis by simp
  next
    case False
    from steps_Suc [OF False Suc.prems(2)] obtain c1
      where s1: "step nodes c = Inr c1" and rest: "steps nodes k c1 = Inr c'" by (elim exE conjE)
    from step_Inr [OF s1] obtain u where ev1: "events c1 = events c @ [(cur c, u)]"
      and e1: "edges (cur c) (merge (st c) u) = Inr (cur c1)" by (elim exE conjE)
    from closed [OF Suc.prems(1) e1] have in1: "cur c1 \<in> R" .
    from Suc.IH [OF in1 rest] obtain evs where c': "cur c' \<in> R"
      and ev: "events c' = events c1 @ evs" and sub: "fst ` set evs \<subseteq> R" by (elim exE conjE)
    from ev ev1 have "events c' = events c @ ((cur c, u) # evs)" by simp
    moreover from sub Suc.prems(1) have "fst ` set ((cur c, u) # evs) \<subseteq> R" by simp
    ultimately show ?thesis using c' by blast
  qed
qed

lemma steps_events_prefix:
  assumes "steps nodes k c = Inr c'"
  shows "\<exists>evs. events c' = events c @ evs"
proof -
  have "cur c \<in> UNIV" by simp
  from region_closed [of UNIV c nodes k c', OF _ this assms] show ?thesis by auto
qed

lemma destinations_Cons:
  assumes "destinations ends (label # ls) = Inr targets"
  shows "\<exists>target rest. map_of ends label = Some target \<and> destinations ends ls = Inr rest
       \<and> targets = target # rest"
proof (cases "map_of ends label")
  case None
  with assms show ?thesis by (cases label) simp_all
next
  case (Some target)
  show ?thesis
  proof (cases "destinations ends ls")
    case (Inl e)
    with assms Some show ?thesis by (cases label) simp_all
  next
    case (Inr rest)
    with assms Some have "targets = target # rest" by (cases label) simp_all
    with Some Inr show ?thesis by simp
  qed
qed

lemma destinations_targets:
  "destinations ends ls = Inr targets \<Longrightarrow> set targets \<subseteq> snd ` set ends"
proof (induction ls arbitrary: targets)
  case Nil
  then show ?case by simp
next
  case (Cons label ls)
  from destinations_Cons [OF Cons.prems] obtain target rest
    where m: "map_of ends label = Some target" and d: "destinations ends ls = Inr rest"
      and t: "targets = target # rest" by (elim exE conjE)
  from map_of_SomeD [OF m] have "snd (label, target) \<in> snd ` set ends" by (rule imageI)
  then have "target \<in> snd ` set ends" by simp
  with Cons.IH [OF d] t show ?case by simp
qed

lemma conditional_edge_targets:
  assumes "conditional_edge selector ends s = Inr n"
  shows "n = END \<or> n \<in> snd ` set ends"
proof (cases "selector s")
  case (Inl e)
  with assms show ?thesis by (simp add: conditional_edge_def)
next
  case label: (Inr label)
  show ?thesis
  proof (cases "destinations ends (labels_of label)")
    case (Inl e)
    with assms label show ?thesis by (simp add: conditional_edge_def)
  next
    case (Inr targets)
    from destinations_targets [OF Inr] have sub: "set targets \<subseteq> snd ` set ends" .
    show ?thesis
    proof (cases targets)
      case Nil
      with assms label Inr show ?thesis by (simp add: conditional_edge_def)
    next
      case (Cons target rest)
      show ?thesis
      proof (cases rest)
        case Nil
        with assms label Inr Cons have "n = target" by (simp add: conditional_edge_def)
        with sub Cons show ?thesis by simp
      next
        case (Cons other more)
        with assms label Inr \<open>targets = target # rest\<close> show ?thesis
          by (simp add: conditional_edge_def)
      qed
    qed
  qed
qed

lemma after_execution_closed:
  assumes "n \<in> after_execution" and "edges n s = Inr n'"
  shows "n' \<in> after_execution"
proof (cases "n = Summarization")
  case True
  with assms(2) have "Inr n' = (Inr (if truthy (getv s Query_result) then Plan_visualization else Curate_memory) :: exn + node)"
    by (simp only: edges_summarization)
  then show ?thesis by (simp add: after_execution_def split: if_splits)
next
  case False
  with assms show ?thesis by (cases n) (auto simp: after_execution_def)
qed

lemma after_summary_closed:
  assumes "n \<in> after_summary" and "edges n s = Inr n'"
  shows "n' \<in> after_summary"
  using assms by (cases n) (auto simp: after_summary_def)

lemma after_summary_run:
  assumes "cur c \<in> after_summary" and "steps nodes k c = Inr c'"
  shows "cur c' \<in> after_summary \<and> (\<exists>evs. events c' = events c @ evs \<and> fst ` set evs \<subseteq> after_summary)"
proof (rule region_closed [where R = after_summary and c = c and nodes = nodes and k = k and c' = c'])
  fix n s n' assume "n \<in> after_summary" and "edges n s = Inr n'"
  then show "n' \<in> after_summary" by (rule after_summary_closed)
next
  show "cur c \<in> after_summary" by fact
next
  show "steps nodes k c = Inr c'" by fact
qed

lemma after_execution_run:
  assumes "cur c \<in> after_execution" and "steps nodes k c = Inr c'"
  shows "cur c' \<in> after_execution \<and> (\<exists>evs. events c' = events c @ evs \<and> fst ` set evs \<subseteq> after_execution)"
proof (rule region_closed [where R = after_execution and c = c and nodes = nodes and k = k and c' = c'])
  fix n s n' assume "n \<in> after_execution" and "edges n s = Inr n'"
  then show "n' \<in> after_execution" by (rule after_execution_closed)
next
  show "cur c \<in> after_execution" by fact
next
  show "steps nodes k c = Inr c'" by fact
qed

lemma edges_to_self_correction:
  assumes "edges n s = Inr Self_correction"
  shows "n = Query_execution"
proof (cases n)
  case Router
  with assms have "conditional_edge (\<lambda>s. index s Next_node ''next_node'')
       [(PStr ''general_conversation'', Direct_response), (PStr ''sql_query'', Load_memory)] s
     = Inr Self_correction" by simp
  from conditional_edge_targets [OF this] show ?thesis by simp
next
  case Summarization
  with assms have "Inr Self_correction = (Inr (if truthy (getv s Query_result) then Plan_visualization else Curate_memory) :: exn + node)"
    by (simp only: edges_summarization)
  then show ?thesis by (simp split: if_splits)
qed (use assms in simp_all)

lemma summarization_node_no_data:
  assumes "\<not> truthy (getv s Query_result)"
  shows "summarization_node env s w = (Inr [Summary \<mapsto> PStr ''The query returned no data to summarize.''], w)"
  using assms by (simp add: summarization_node_def Let_def)

lemma query_result_kept:
  "getv (merge s [Summary \<mapsto> v]) Query_result = getv s Query_result"
  by (simp add: merge_def getv_def)

text \<open>
  Claim C4. At the summarization step with a \<open>query_result\<close> that is null or empty
  (falsy), the summary is the message that the query returned no data, no collaborator
  is called, the conditional edge goes to \<^verbatim>\<open>curate_memory\<close>, and from there on the
  run never stands at \<^verbatim>\<open>plan_visualization\<close> and never executes it, however long it
  goes on.
\<close>

theorem no_data_short_circuit:
  assumes "\<not> truthy (getv s Query_result)"
  shows "summarization_node env s w = (Inr [Summary \<mapsto> PStr ''The query returned no data to summarize.''], w)
       \<and> edges Summarization (merge s [Summary \<mapsto> PStr ''The query returned no data to summarize.'']) = Inr Curate_memory
       \<and> (\<forall>c k c'. cur c = Summarization \<and> st c = s \<and> wld c = w
             \<and> steps (create_agent_graph env others) k c = Inr c'
           \<longrightarrow> cur c' \<noteq> Plan_visualization
             \<and> executions Plan_visualization (events c') = executions Plan_visualization (events c))"
proof (intro conjI allI impI)
  show node: "summarization_node env s w = (Inr [Summary \<mapsto> PStr ''The query returned no data to summarize.''], w)"
    by (rule summarization_node_no_data [OF assms])
  from assms
  show edge: "edges Summarization (merge s [Summary \<mapsto> PStr ''The query returned no data to summarize.'']) = Inr Curate_memory"
    by (simp only: edges_summarization query_result_kept if_False)
  fix c k c'
  assume h: "cur c = Summarization \<and> st c = s \<and> wld c = w
             \<and> steps (create_agent_graph env others) k c = Inr c'"
  then have hc: "cur c = Summarization" and hs: "st c = s" and hw: "wld c = w"
    and hr: "steps (create_agent_graph env others) k c = Inr c'" by simp_all
  have both: "cur c' \<noteq> Plan_visualization
       \<and> executions Plan_visualization (events c') = executions Plan_visualization (events c)"
  proof (cases k)
    case 0
    with hr have "c' = c" by simp
    with hc show ?thesis by simp
  next
    case (Suc k')
    from hc have ne: "cur c \<noteq> END" by simp
    from hr have run: "steps (create_agent_graph env others) (Suc k') c = Inr c'"
      unfolding Suc .
    from steps_Suc [OF ne run] obtain c1
      where s1: "step (create_agent_graph env others) c = Inr c1"
        and rest: "steps (create_agent_graph env others) k' c1 = Inr c'" by (elim exE conjE)
    from step_Inr [OF s1] obtain u w' where
      n1: "create_agent_graph env others (cur c) (st c) (wld c) = (Inr u, w')"
      and ev1: "events c1 = events c @ [(cur c, u)]"
      and e1: "edges (cur c) (merge (st c) u) = Inr (cur c1)" by (elim exE conjE)
    from n1 have "summarization_node env s w = (Inr u, w')"
      by (simp only: hc hs hw create_agent_graph.simps)
    with node have u: "u = [Summary \<mapsto> PStr ''The query returned no data to summarize.'']"
      by (simp only: prod.inject sum.inject)
    from e1 have "edges Summarization (merge s u) = Inr (cur c1)" by (simp only: hc hs)
    with edge have "Inr Curate_memory = (Inr (cur c1) :: exn + node)" by (simp only: u)
    then have c1: "cur c1 = Curate_memory" by (simp only: sum.inject)
    then have in1: "cur c1 \<in> after_summary" by (simp add: after_summary_def)
    from after_summary_run [OF in1 rest]
    obtain evs where c': "cur c' \<in> after_summary" and ev: "events c' = events c1 @ evs"
      and sub: "fst ` set evs \<subseteq> after_summary" by (elim exE conjE)
    have out: "Plan_visualization \<notin> after_summary" by (simp add: after_summary_def)
    have "executions Plan_visualization [(Summarization, u)] = 0" by (simp add: executions_def)
    with executions_outside [OF sub out]
    have "executions Plan_visualization (events c') = executions Plan_visualization (events c)"
      by (simp only: ev ev1 hc executions_append add_0_right)
    moreover from c' out have "cur c' \<noteq> Plan_visualization" by auto
    ultimately show ?thesis by simp
  qed
  from both show "cur c' \<noteq> Plan_visualization" by (rule conjunct1)
  from both show "executions Plan_visualization (events c') = executions Plan_visualization (events c)"
    by (rule conjunct2)
qed

theorem no_data_short_circuit_witness:
  "summarization_node (mock_env (\<lambda>k. Llm_returns None) (\<lambda>k. No_description) [])
       [Question \<mapsto> PStr ''What are sales?'', Query_result \<mapsto> PList [], Sql_error \<mapsto> PNone] world0
     = (Inr [Summary \<mapsto> PStr ''The query returned no data to summarize.''], world0)
   \<and> edges Summarization
         (merge [Question \<mapsto> PStr ''What are sales?'', Query_result \<mapsto> PList [], Sql_error \<mapsto> PNone]
                [Summary \<mapsto> PStr ''The query returned no data to summarize.''])
     = Inr Curate_memory"
proof -
  let ?s = "[Question \<mapsto> PStr ''What are sales?'', Query_result \<mapsto> PList [], Sql_error \<mapsto> PNone]"
  have h: "\<not> truthy (getv ?s Query_result)" by (simp add: getv_def)
  note all = no_data_short_circuit [OF h, where env = "mock_env (\<lambda>k. Llm_returns None) (\<lambda>k. No_description) []"
      and w = world0 and others = no_others]
  show ?thesis by (intro conjI all [THEN conjunct1] all [THEN conjunct2, THEN conjunct1])
qed

section \<open>The self-correction cycle\<close>

lemma step_query_execution:
  assumes "cur c = Query_execution" and "step (create_agent_graph env others) c = Inr c1"
  shows "\<exists>u e. events c1 = events c @ [(Query_execution, u)]
       \<and> getv u Sql_error = e \<and> getv (st c1) Sql_error = e
       \<and> cur c1 = (if truthy e then Self_correction else Summarization)
       \<and> (e = PNone \<or> (\<exists>msg. e = PStr msg))"
proof -
  from step_Inr [OF assms(2)] obtain u w'
    where n: "create_agent_graph env others (cur c) (st c) (wld c) = (Inr u, w')"
      and s1: "st c1 = merge (st c) u"
      and ev: "events c1 = events c @ [(cur c, u)]"
      and ed: "edges (cur c) (merge (st c) u) = Inr (cur c1)"
    by (elim exE conjE)
  from n assms(1) have "query_execution_node env (st c) (wld c) = (Inr u, w')" by simp
  from query_execution_node_Inr [OF this] obtain r e
    where u: "u = [Query_result \<mapsto> r, Sql_error \<mapsto> e, Generated_sql \<mapsto> getv (st c) Generated_sql]"
      and shape: "(r = PNone \<and> (\<exists>m. e = PStr m)) \<or> (e = PNone \<and> (\<exists>rows. r = PList rows))"
    by (elim exE conjE)
  from shape have sh: "e = PNone \<or> (\<exists>msg. e = PStr msg)" by auto
  from u have gu: "getv u Sql_error = e" by (simp add: getv_def)
  from u have gm: "getv (merge (st c) u) Sql_error = e" by (simp add: getv_def merge_def)
  with s1 have gs: "getv (st c1) Sql_error = e" by simp
  from ed assms(1) have "edges Query_execution (merge (st c) u) = Inr (cur c1)" by (simp only:)
  then have "Inr (cur c1) = (Inr (if truthy (getv (merge (st c) u) Sql_error) then Self_correction else Summarization) :: exn + node)"
    by (simp only: edges_query_execution)
  with gm have cu: "cur c1 = (if truthy e then Self_correction else Summarization)" by simp
  from ev assms(1) have ev1: "events c1 = events c @ [(Query_execution, u)]" by simp
  from ev1 gu gs cu sh show ?thesis by (intro exI conjI)
qed

lemma step_self_correction:
  assumes "cur c = Self_correction" and "step nodes c = Inr c1"
  shows "cur c1 = Query_execution \<and> (\<exists>u. events c1 = events c @ [(Self_correction, u)])"
proof -
  from step_Inr [OF assms(2)] obtain u where ev: "events c1 = events c @ [(cur c, u)]"
    and e: "edges (cur c) (merge (st c) u) = Inr (cur c1)" by (elim exE conjE)
  from e assms(1) have "cur c1 = Query_execution" by simp
  with ev assms(1) show ?thesis by simp
qed

lemma attempts_snoc_execution:
  "attempts (evs @ [(Query_execution, u)]) = attempts evs @ [getv u Sql_error]"
  by (simp add: attempts_def)

lemma attempts_snoc_other:
  "n \<noteq> Query_execution \<Longrightarrow> attempts (evs @ [(n, u)]) = attempts evs"
  by (simp add: attempts_def)

lemma executions_snoc:
  "executions n (evs @ [(n', u)]) = executions n evs + (if n' = n then 1 else 0)"
  by (simp add: executions_def)

lemma correction_cycle:
  assumes "cur c0 = Query_execution"
    and "steps (create_agent_graph env others) m c0 = Inr c"
    and "attempts (events c) = attempts (events c0) @ failed @ PNone # later"
    and "PNone \<notin> set failed"
  shows "\<exists>m' c'. m' \<le> m \<and> steps (create_agent_graph env others) m' c0 = Inr c'
       \<and> cur c' = Summarization
       \<and> executions Query_execution (events c') = executions Query_execution (events c0) + Suc (length failed)
       \<and> executions Self_correction (events c') = executions Self_correction (events c0) + length failed
       \<and> getv (st c') Sql_error = PNone"
  using assms
proof (induction failed arbitrary: c0 m)
  case Nil
  let ?G = "create_agent_graph env others"
  from Nil.prems(1) have ne: "cur c0 \<noteq> END" by simp
  have m: "m \<noteq> 0"
  proof
    assume "m = 0"
    with Nil.prems(2) have "c = c0" by simp
    with Nil.prems(3) show False by simp
  qed
  then obtain m1 where m1: "m = Suc m1" by (cases m) auto
  from steps_Suc [OF ne Nil.prems(2) [unfolded m1]] obtain c1
    where s1: "step ?G c0 = Inr c1" and rest: "steps ?G m1 c1 = Inr c" by (elim exE conjE)
  from step_query_execution [OF Nil.prems(1) s1]
  obtain u e where ev1: "events c1 = events c0 @ [(Query_execution, u)]"
    and gu: "getv u Sql_error = e" and gs: "getv (st c1) Sql_error = e"
    and cu: "cur c1 = (if truthy e then Self_correction else Summarization)"
    by (elim exE conjE)
  from steps_events_prefix [OF rest] obtain evs where ev: "events c = events c1 @ evs" by (elim exE)
  from ev1 gu have a1: "attempts (events c1) = attempts (events c0) @ [e]"
    by (simp add: attempts_snoc_execution)
  from ev a1 have "attempts (events c) = attempts (events c0) @ [e] @ attempts evs"
    by (simp add: attempts_append)
  with Nil.prems(3) have e: "e = PNone" by simp
  with cu have c1: "cur c1 = Summarization" by simp
  from ne s1 have "steps ?G (Suc 0) c0 = Inr c1" by simp
  moreover from m1 have "Suc 0 \<le> m" by simp
  moreover from ev1 have "executions Query_execution (events c1) = executions Query_execution (events c0) + Suc (length ([] :: pyval list))"
    by (simp add: executions_snoc)
  moreover from ev1 have "executions Self_correction (events c1) = executions Self_correction (events c0) + length ([] :: pyval list)"
    by (simp add: executions_snoc)
  moreover from gs e have "getv (st c1) Sql_error = PNone" by simp
  ultimately show ?case using c1 by blast
next
  case (Cons f fs)
  let ?G = "create_agent_graph env others"
  from Cons.prems(1) have ne: "cur c0 \<noteq> END" by simp
  have m: "m \<noteq> 0"
  proof
    assume "m = 0"
    with Cons.prems(2) have "c = c0" by simp
    with Cons.prems(3) show False by simp
  qed
  then obtain m1 where m1: "m = Suc m1" by (cases m) auto
  from steps_Suc [OF ne Cons.prems(2) [unfolded m1]] obtain c1
    where s1: "step ?G c0 = Inr c1" and rest: "steps ?G m1 c1 = Inr c" by (elim exE conjE)
  from step_query_execution [OF Cons.prems(1) s1]
  obtain u e where ev1: "events c1 = events c0 @ [(Query_execution, u)]"
    and gu: "getv u Sql_error = e" and gs: "getv (st c1) Sql_error = e"
    and cu: "cur c1 = (if truthy e then Self_correction else Summarization)"
    by (elim exE conjE)
  from steps_events_prefix [OF rest] obtain evs where ev: "events c = events c1 @ evs" by (elim exE)
  from ev1 gu have a1: "attempts (events c1) = attempts (events c0) @ [e]"
    by (simp add: attempts_snoc_execution)
  from ev a1 have "attempts (events c) = attempts (events c0) @ [e] @ attempts evs"
    by (simp add: attempts_append)
  with Cons.prems(3) have ef: "e = f" and tail: "attempts evs = fs @ PNone # later" by simp_all
  have tr: "truthy e"
  proof (rule ccontr)
    assume "\<not> truthy e"
    with cu have "cur c1 \<in> after_execution" by (simp add: after_execution_def)
    from after_execution_run [OF this rest] obtain evs' where ev': "events c = events c1 @ evs'"
      and sub: "fst ` set evs' \<subseteq> after_execution" by (elim exE conjE)
    have "Query_execution \<notin> after_execution" by (simp add: after_execution_def)
    from attempts_outside [OF sub this] have "attempts evs' = []" .
    moreover from ev ev' have "evs' = evs" by simp
    ultimately show False using tail by simp
  qed
  with cu have c1: "cur c1 = Self_correction" by simp
  then have ne1: "cur c1 \<noteq> END" by simp
  have m1n: "m1 \<noteq> 0"
  proof
    assume "m1 = 0"
    with rest have "c = c1" by simp
    with ev have "evs = []" by simp
    with tail show False by (simp add: attempts_def)
  qed
  then obtain m2 where m2: "m1 = Suc m2" by (cases m1) auto
  from steps_Suc [OF ne1 rest [unfolded m2]] obtain c2 where s2: "step ?G c1 = Inr c2"
    and rest2: "steps ?G m2 c2 = Inr c" by (elim exE conjE)
  from step_self_correction [OF c1 s2] obtain u2 where c2: "cur c2 = Query_execution"
    and ev2: "events c2 = events c1 @ [(Self_correction, u2)]" by (elim exE conjE)
  from ev2 a1 have a2: "attempts (events c2) = attempts (events c0) @ [e]"
    by (simp add: attempts_snoc_other)
  from Cons.prems(3) a2 ef have p3: "attempts (events c) = attempts (events c2) @ fs @ PNone # later"
    by simp
  from Cons.prems(4) have p4: "PNone \<notin> set fs" by simp
  from Cons.IH [OF c2 rest2 p3 p4] obtain m' c' where le: "m' \<le> m2"
    and run: "steps ?G m' c2 = Inr c'" and cs: "cur c' = Summarization"
    and xq: "executions Query_execution (events c') = executions Query_execution (events c2) + Suc (length fs)"
    and xs: "executions Self_correction (events c') = executions Self_correction (events c2) + length fs"
    and g: "getv (st c') Sql_error = PNone" by (elim exE conjE)
  from steps_step [OF ne1 s2 run] have "steps ?G (Suc m') c1 = Inr c'" .
  from steps_step [OF ne s1 this] have "steps ?G (Suc (Suc m')) c0 = Inr c'" .
  moreover from le m1 m2 have "Suc (Suc m') \<le> m" by simp
  moreover from xq ev2 ev1 have "executions Query_execution (events c') = executions Query_execution (events c0) + Suc (length (f # fs))"
    by (simp add: executions_def)
  moreover from xs ev2 ev1 have "executions Self_correction (events c') = executions Self_correction (events c0) + length (f # fs)"
    by (simp add: executions_def)
  ultimately show ?case using cs g by blast
qed

lemma attempts_length: "length (attempts evs) = executions Query_execution evs"
  by (simp add: attempts_def executions_def)

text \<open>
  Claim C1. Take any run that has not executed a query yet (in particular a run from the
  entry step) and look at it at any later moment. If by then it has made an execution
  attempt whose result carries a null \<open>sql_error\<close>, and \<open>failed\<close> are the results of
  the attempts before the first such one, so that this one is attempt number
  \<open>N = length failed + 1\<close>, then the run stood at \<^verbatim>\<open>summarization\<close> at an earlier
  or the same moment, after exactly \<open>N\<close> executions of \<^verbatim>\<open>query_execution\<close> and
  \<open>N - 1\<close> executions of \<^verbatim>\<open>self_correction\<close>, with \<open>sql_error\<close> null in the state.
\<close>

theorem self_correction_convergence:
  assumes "executions Query_execution (events c0) = 0"
    and "executions Self_correction (events c0) = 0"
    and "cur c0 \<noteq> Self_correction"
    and "steps (create_agent_graph env others) m c0 = Inr c"
    and "attempts (events c) = failed @ PNone # later"
    and "PNone \<notin> set failed"
  shows "\<exists>m' c'. m' \<le> m \<and> steps (create_agent_graph env others) m' c0 = Inr c'
       \<and> cur c' = Summarization
       \<and> executions Query_execution (events c') = Suc (length failed)
       \<and> executions Self_correction (events c') = length failed
       \<and> getv (st c') Sql_error = PNone"
  using assms(1-4)
proof (induction m arbitrary: c0)
  case 0
  then have "c = c0" by simp
  with 0(1) have "attempts (events c) = []" by (simp add: attempts_length [symmetric])
  with assms(5) show ?case by simp
next
  case (Suc m)
  let ?G = "create_agent_graph env others"
  from Suc.prems(1) have a0: "attempts (events c0) = []" by (simp add: attempts_length [symmetric])
  show ?case
  proof (cases "cur c0 = Query_execution")
    case True
    from assms(5) a0 have "attempts (events c) = attempts (events c0) @ failed @ PNone # later" by simp
    from correction_cycle [OF True Suc.prems(4) this assms(6)] Suc.prems(1,2)
    show ?thesis by simp
  next
    case False
    show ?thesis
    proof (cases "cur c0 = END")
      case True
      with Suc.prems(4) have "c = c0" by simp
      with a0 assms(5) show ?thesis by simp
    next
      case ne: False
      from steps_Suc [OF ne Suc.prems(4)] obtain c1 where s1: "step ?G c0 = Inr c1"
        and rest: "steps ?G m c1 = Inr c" by (elim exE conjE)
      from step_Inr [OF s1] obtain u where ev1: "events c1 = events c0 @ [(cur c0, u)]"
        and e1: "edges (cur c0) (merge (st c0) u) = Inr (cur c1)" by (elim exE conjE)
      from ev1 False Suc.prems(1) have x1: "executions Query_execution (events c1) = 0"
        by (simp add: executions_def)
      from ev1 Suc.prems(2,3) have x2: "executions Self_correction (events c1) = 0"
        by (simp add: executions_def)
      have x3: "cur c1 \<noteq> Self_correction"
      proof
        assume "cur c1 = Self_correction"
        with e1 have "cur c0 = Query_execution" by (simp add: edges_to_self_correction)
        with False show False by simp
      qed
      from Suc.IH [OF x1 x2 x3 rest] obtain m' c' where le: "m' \<le> m"
        and run: "steps ?G m' c1 = Inr c'" and rest': "cur c' = Summarization
          \<and> executions Query_execution (events c') = Suc (length failed)
          \<and> executions Self_correction (events c') = length failed
          \<and> getv (st c') Sql_error = PNone" by (elim exE conjE) simp
      from steps_step [OF ne s1 run] have "steps ?G (Suc m') c0 = Inr c'" .
      moreover from le have "Suc m' \<le> Suc m" by simp
      ultimately show ?thesis using rest' by blast
    qed
  qed
qed

lemma retry_q1: "strip ''SELECT totl FROM sales'' \<noteq> [] \<and> startswith (upper (strip ''SELECT totl FROM sales'')) ''SELECT''"
  by code_simp

lemma retry_q2: "strip ''SELECT total FROM sales'' \<noteq> [] \<and> startswith (upper (strip ''SELECT total FROM sales'')) ''SELECT''"
  by code_simp

lemma retry_clean: "clean_sql ''SELECT total FROM sales'' = ''SELECT total FROM sales''"
  by code_simp

lemma retry_run:
  "\<exists>c. steps (create_agent_graph retry_env no_others) (Suc (Suc (Suc 0))) (start Query_execution sql_state) = Inr c
       \<and> attempts (events c) = [PStr ''column totl does not exist''] @ PNone # []"
  by (simp add: step_def query_execution_node_def execute_sql_query_def validate_str_def
        execute_sql_query_body_def db_try_def
        self_correction_node_def invoke_chat_completion_def index_def getv_def merge_def
        conditional_edge_def should_continue_to_summarization_def sql_result_def dict_get_def
        retry_env_def mock_env_def side_effect_def start_def world0_def sql_state_def
        attempts_def retry_q1 retry_q2 retry_clean Let_def)

theorem self_correction_convergence_witness:
  "\<exists>m' c'. m' \<le> Suc (Suc (Suc 0))
       \<and> steps (create_agent_graph retry_env no_others) m' (start Query_execution sql_state) = Inr c'
       \<and> cur c' = Summarization
       \<and> executions Query_execution (events c') = Suc (length [PStr ''column totl does not exist''])
       \<and> executions Self_correction (events c') = length [PStr ''column totl does not exist'']
       \<and> getv (st c') Sql_error = PNone"
proof -
  from retry_run obtain c
    where run: "steps (create_agent_graph retry_env no_others) (Suc (Suc (Suc 0))) (start Query_execution sql_state) = Inr c"
      and att: "attempts (events c) = [PStr ''column totl does not exist''] @ PNone # []"
    by (elim exE conjE)
  have h1: "executions Query_execution (events (start Query_execution sql_state)) = 0"
    by (simp add: start_def executions_def)
  have h2: "executions Self_correction (events (start Query_execution sql_state)) = 0"
    by (simp add: start_def executions_def)
  have h3: "cur (start Query_execution sql_state) \<noteq> Self_correction" by (simp add: start_def)
  have h6: "PNone \<notin> set [PStr ''column totl does not exist'']" by simp
  from self_correction_convergence [OF h1 h2 h3 run att h6] show ?thesis .
qed

lemma leave_cycle:
  assumes "cur c0 = Query_execution"
    and "steps (create_agent_graph env others) m c0 = Inr c"
    and "cur c \<noteq> Query_execution" and "cur c \<noteq> Self_correction"
  shows "\<exists>e \<in> set (drop (length (attempts (events c0))) (attempts (events c))). e = PNone \<or> e = PStr []"
  using assms
proof (induction m arbitrary: c0 rule: less_induct)
  case (less m)
  let ?G = "create_agent_graph env others"
  from less.prems(1) have ne: "cur c0 \<noteq> END" by simp
  have "m \<noteq> 0"
  proof
    assume "m = 0"
    with less.prems(2) have "c = c0" by simp
    with less.prems(1,3) show False by simp
  qed
  then obtain m1 where m1: "m = Suc m1" by (cases m) auto
  from steps_Suc [OF ne less.prems(2) [unfolded m1]] obtain c1
    where s1: "step ?G c0 = Inr c1" and rest: "steps ?G m1 c1 = Inr c" by (elim exE conjE)
  from step_query_execution [OF less.prems(1) s1]
  obtain u e where ev1: "events c1 = events c0 @ [(Query_execution, u)]"
    and gu: "getv u Sql_error = e"
    and cu: "cur c1 = (if truthy e then Self_correction else Summarization)"
    and sh: "e = PNone \<or> (\<exists>msg. e = PStr msg)"
    by (elim exE conjE)
  from ev1 gu have a1: "attempts (events c1) = attempts (events c0) @ [e]"
    by (simp add: attempts_snoc_execution)
  show ?case
  proof (cases "truthy e")
    case False
    from steps_events_prefix [OF rest] obtain evs where ev: "events c = events c1 @ evs" by (elim exE)
    from ev a1 have "attempts (events c) = attempts (events c0) @ e # attempts evs"
      by (simp add: attempts_append)
    then have "e \<in> set (drop (length (attempts (events c0))) (attempts (events c)))" by simp
    moreover from False sh have "e = PNone \<or> e = PStr []" by auto
    ultimately show ?thesis by blast
  next
    case True
    with cu have c1: "cur c1 = Self_correction" by simp
    then have ne1: "cur c1 \<noteq> END" by simp
    have "m1 \<noteq> 0"
    proof
      assume "m1 = 0"
      with rest have "c = c1" by simp
      with c1 less.prems(4) show False by simp
    qed
    then obtain m2 where m2: "m1 = Suc m2" by (cases m1) auto
    from steps_Suc [OF ne1 rest [unfolded m2]] obtain c2 where s2: "step ?G c1 = Inr c2"
      and rest2: "steps ?G m2 c2 = Inr c" by (elim exE conjE)
    from step_self_correction [OF c1 s2] obtain u2 where c2: "cur c2 = Query_execution"
      and ev2: "events c2 = events c1 @ [(Self_correction, u2)]" by (elim exE conjE)
    from ev2 a1 have a2: "attempts (events c2) = attempts (events c0) @ [e]"
      by (simp add: attempts_snoc_other)
    from m1 m2 have lt: "m2 < m" by simp
    from less.IH [OF lt c2 rest2 less.prems(3,4)]
    obtain e' where in2: "e' \<in> set (drop (length (attempts (events c2))) (attempts (events c)))"
      and f: "e' = PNone \<or> e' = PStr []" by (elim bexE)
    from a2 have "length (attempts (events c0)) \<le> length (attempts (events c2))" by simp
    from set_drop_subset_set_drop [OF this, of "attempts (events c)"] in2
    have "e' \<in> set (drop (length (attempts (events c0))) (attempts (events c)))" by auto
    with f show ?thesis by blast
  qed
qed

lemma execute_sql_query_body_failing:
  assumes "\<forall>k q. \<exists>x. (db_reply env k q = Connect_raises x \<or> db_reply env k q = Execute_raises x) \<and> str_of x \<noteq> []"
  shows "\<exists>msg w'. execute_sql_query_body env w q = (Inr (sql_result PNone (PStr msg)), w') \<and> msg \<noteq> []"
proof -
  from assms have "\<exists>x. (db_reply env (db_calls w) q = Connect_raises x \<or> db_reply env (db_calls w) q = Execute_raises x)
      \<and> str_of x \<noteq> []" by (elim allE)
  then obtain x where x: "db_reply env (db_calls w) q = Connect_raises x \<or> db_reply env (db_calls w) q = Execute_raises x"
    and nx: "str_of x \<noteq> []" by (elim exE conjE)
  from x nx show ?thesis
    by (auto simp: execute_sql_query_body_def db_try_def Let_def)
qed

lemma query_execution_node_failing:
  assumes "\<forall>k q. \<exists>x. (db_reply env k q = Connect_raises x \<or> db_reply env k q = Execute_raises x) \<and> str_of x \<noteq> []"
    and "query_execution_node env s w = (Inr u, w')"
  shows "\<exists>msg. getv u Sql_error = PStr msg \<and> msg \<noteq> []"
proof (cases "\<exists>q. getv s Generated_sql = PStr q")
  case True
  then obtain q where q: "getv s Generated_sql = PStr q" by (elim exE)
  from execute_sql_query_body_failing [OF assms(1), of w q] obtain msg w1
    where x: "execute_sql_query_body env w q = (Inr (sql_result PNone (PStr msg)), w1)"
      and msg: "msg \<noteq> []" by (elim exE conjE)
  from x q have "query_execution_node env s w =
      (Inr [Query_result \<mapsto> PNone, Sql_error \<mapsto> PStr msg, Generated_sql \<mapsto> PStr q], w1)"
    by (simp add: query_execution_node_def execute_sql_query_str sql_result_def dict_get_def Let_def)
  with assms(2) have "u = [Query_result \<mapsto> PNone, Sql_error \<mapsto> PStr msg, Generated_sql \<mapsto> PStr q]"
    by simp
  then have "getv u Sql_error = PStr msg" by (simp add: getv_def)
  with msg show ?thesis by simp
next
  case False
  then have "\<forall>q. getv s Generated_sql \<noteq> PStr q" by simp
  from query_execution_node_not_str [OF this, of env w] assms(2) show ?thesis by simp
qed

lemma failing_db_attempts:
  assumes db: "\<forall>k q. \<exists>x. (db_reply env k q = Connect_raises x \<or> db_reply env k q = Execute_raises x) \<and> str_of x \<noteq> []"
  shows "steps (create_agent_graph env others) n c0 = Inr c
     \<Longrightarrow> \<forall>e \<in> set (drop (length (attempts (events c0))) (attempts (events c))). \<exists>msg. e = PStr msg \<and> msg \<noteq> []"
proof (induction n arbitrary: c0)
  case 0
  then have "c = c0" by simp
  then show ?case by simp
next
  case (Suc n)
  let ?G = "create_agent_graph env others"
  show ?case
  proof (cases "cur c0 = END")
    case True
    with Suc.prems have "c = c0" by simp
    then show ?thesis by simp
  next
    case False
    from steps_Suc [OF False Suc.prems] obtain c1 where s1: "step ?G c0 = Inr c1"
      and rest: "steps ?G n c1 = Inr c" by (elim exE conjE)
    from step_Inr [OF s1] obtain u w' where n1: "?G (cur c0) (st c0) (wld c0) = (Inr u, w')"
      and ev1: "events c1 = events c0 @ [(cur c0, u)]" by (elim exE conjE)
    from steps_events_prefix [OF rest] obtain evs where ev: "events c = events c1 @ evs" by (elim exE)
    from ev have a: "attempts (events c) = attempts (events c1) @ attempts evs"
      by (simp add: attempts_append)
    from Suc.IH [OF rest] a
    have tail: "\<forall>e \<in> set (attempts evs). \<exists>msg. e = PStr msg \<and> msg \<noteq> []" by simp
    have head: "\<forall>e \<in> set (attempts [(cur c0, u)]). \<exists>msg. e = PStr msg \<and> msg \<noteq> []"
    proof (cases "cur c0 = Query_execution")
      case True
      with n1 have "query_execution_node env (st c0) (wld c0) = (Inr u, w')" by simp
      from query_execution_node_failing [OF db this] True show ?thesis by (simp add: attempts_def)
    next
      case False
      then show ?thesis by (simp add: attempts_def)
    qed
    from ev1 have "attempts (events c1) = attempts (events c0) @ attempts [(cur c0, u)]"
      by (simp only: attempts_append)
    with a have "attempts (events c) = attempts (events c0) @ attempts [(cur c0, u)] @ attempts evs"
      by (simp only: append_assoc)
    then have "drop (length (attempts (events c0))) (attempts (events c)) = attempts [(cur c0, u)] @ attempts evs"
      by simp
    with head tail show ?thesis by auto
  qed
qed

lemma execute_sql_query_body_refused:
  assumes "refused q"
  shows "\<exists>msg. execute_sql_query_body env w q = (Inr (sql_result PNone (PStr msg)), w) \<and> msg \<noteq> []"
  using assms by (auto simp: refused_def execute_sql_query_body_def)

lemma refused_step:
  assumes llm: "\<forall>k. llm_reply env k = Llm_returns (Some t)"
    and rt: "refused (clean_sql t)"
    and cyc: "in_cycle c"
    and q: "st c Generated_sql = Some (PStr q)" and rq: "refused q"
    and s1: "step (create_agent_graph env others) c = Inr c1"
  shows "in_cycle c1 \<and> (\<exists>q'. st c1 Generated_sql = Some (PStr q') \<and> refused q')
       \<and> db_calls (wld c1) = db_calls (wld c)
       \<and> (\<exists>u. events c1 = events c @ [(cur c, u)]
             \<and> (\<forall>e \<in> set (attempts [(cur c, u)]). \<exists>msg. e = PStr msg \<and> msg \<noteq> []))"
proof (cases "cur c = Query_execution")
  case True
  from cyc have kq: "st c Question \<noteq> None" and ks: "st c Retrieved_schema \<noteq> None"
    by (auto simp: in_cycle_def)
  from q have gq: "getv (st c) Generated_sql = PStr q" by (simp add: getv_def)
  from execute_sql_query_body_refused [OF rq, of env "wld c"] obtain msg
    where x: "execute_sql_query_body env (wld c) q = (Inr (sql_result PNone (PStr msg)), wld c)"
      and msg: "msg \<noteq> []" by (elim exE conjE)
  let ?u = "[Query_result \<mapsto> PNone, Sql_error \<mapsto> PStr msg, Generated_sql \<mapsto> PStr q]"
  from x gq have n: "query_execution_node env (st c) (wld c) = (Inr ?u, wld c)"
    by (simp add: query_execution_node_def execute_sql_query_str sql_result_def dict_get_def Let_def)
  from msg have "truthy (getv (merge (st c) ?u) Sql_error)" by (simp add: getv_def merge_def)
  then have ed: "edges Query_execution (merge (st c) ?u) = Inr Self_correction"
    by (simp only: edges_query_execution if_True)
  let ?c1 = "\<lparr>cur = Self_correction, st = merge (st c) ?u, wld = wld c,
              events = events c @ [(Query_execution, ?u)]\<rparr>"
  from True n ed have "step (create_agent_graph env others) c = Inr ?c1"
    by (simp add: step_def del: edges.simps)
  with s1 have c1: "c1 = ?c1" by simp
  from kq ks have i: "in_cycle ?c1" by (simp add: in_cycle_def merge_def)
  from rq have g: "\<exists>q'. st ?c1 Generated_sql = Some (PStr q') \<and> refused q'"
    by (simp add: merge_def)
  have d: "db_calls (wld ?c1) = db_calls (wld c)" by simp
  from msg True have e: "\<exists>u. events ?c1 = events c @ [(cur c, u)]
             \<and> (\<forall>e \<in> set (attempts [(cur c, u)]). \<exists>msg. e = PStr msg \<and> msg \<noteq> [])"
    by (simp add: attempts_def getv_def)
  from i g d e show ?thesis unfolding c1 by (intro conjI)
next
  case False
  with cyc have sc: "cur c = Self_correction" and kq: "st c Question \<noteq> None"
    and ke: "st c Sql_error \<noteq> None" and ks: "st c Retrieved_schema \<noteq> None"
    by (auto simp: in_cycle_def)
  from llm have t: "llm_reply env (llm_calls (wld c)) = Llm_returns (Some t)" by (rule spec)
  let ?u = "[Generated_sql \<mapsto> PStr (clean_sql t), Sql_error \<mapsto> PNone]"
  let ?w = "(wld c)\<lparr>llm_calls := Suc (llm_calls (wld c))\<rparr>"
  from kq ke ks q t have n: "self_correction_node env (st c) (wld c) = (Inr ?u, ?w)"
    by (auto simp: self_correction_node_def index_def invoke_chat_completion_def)
  let ?c1 = "\<lparr>cur = Query_execution, st = merge (st c) ?u, wld = ?w,
              events = events c @ [(Self_correction, ?u)]\<rparr>"
  from sc n have "step (create_agent_graph env others) c = Inr ?c1"
    by (simp add: step_def)
  with s1 have c1: "c1 = ?c1" by simp
  from kq ks have i: "in_cycle ?c1" by (simp add: in_cycle_def merge_def)
  from rt have g: "\<exists>q'. st ?c1 Generated_sql = Some (PStr q') \<and> refused q'"
    by (simp add: merge_def)
  have d: "db_calls (wld ?c1) = db_calls (wld c)" by simp
  from sc have e: "\<exists>u. events ?c1 = events c @ [(cur c, u)]
             \<and> (\<forall>e \<in> set (attempts [(cur c, u)]). \<exists>msg. e = PStr msg \<and> msg \<noteq> [])"
    by (simp add: attempts_def)
  from i g d e show ?thesis unfolding c1 by (intro conjI)
qed

lemma refused_attempts:
  assumes llm: "\<forall>k. llm_reply env k = Llm_returns (Some t)"
    and rt: "refused (clean_sql t)"
  shows "in_cycle c0 \<Longrightarrow> st c0 Generated_sql = Some (PStr q) \<Longrightarrow> refused q
     \<Longrightarrow> steps (create_agent_graph env others) n c0 = Inr c
     \<Longrightarrow> (\<forall>e \<in> set (drop (length (attempts (events c0))) (attempts (events c))). \<exists>msg. e = PStr msg \<and> msg \<noteq> [])
         \<and> db_calls (wld c) = db_calls (wld c0)"
proof (induction n arbitrary: c0 q)
  case 0
  then have "c = c0" by simp
  then show ?case by simp
next
  case (Suc n)
  let ?G = "create_agent_graph env others"
  from Suc.prems(1) have ne: "cur c0 \<noteq> END" by (auto simp: in_cycle_def)
  from steps_Suc [OF ne Suc.prems(4)] obtain c1 where s1: "step ?G c0 = Inr c1"
    and rest: "steps ?G n c1 = Inr c" by (elim exE conjE)
  from refused_step [OF llm rt Suc.prems(1,2,3) s1] obtain q' u
    where i1: "in_cycle c1" and q1: "st c1 Generated_sql = Some (PStr q')" and r1: "refused q'"
      and d1: "db_calls (wld c1) = db_calls (wld c0)"
      and ev1: "events c1 = events c0 @ [(cur c0, u)]"
      and head: "\<forall>e \<in> set (attempts [(cur c0, u)]). \<exists>msg. e = PStr msg \<and> msg \<noteq> []"
    by (elim exE conjE)
  from Suc.IH [OF i1 q1 r1 rest]
  have ih: "\<forall>e \<in> set (drop (length (attempts (events c1))) (attempts (events c))). \<exists>msg. e = PStr msg \<and> msg \<noteq> []"
    and d: "db_calls (wld c) = db_calls (wld c1)" by simp_all
  from steps_events_prefix [OF rest] obtain evs where ev: "events c = events c1 @ evs" by (elim exE)
  from ev have a: "attempts (events c) = attempts (events c1) @ attempts evs"
    by (simp add: attempts_append)
  from ih a have tail: "\<forall>e \<in> set (attempts evs). \<exists>msg. e = PStr msg \<and> msg \<noteq> []" by simp
  from ev1 have "attempts (events c1) = attempts (events c0) @ attempts [(cur c0, u)]"
    by (simp only: attempts_append)
  with a have "attempts (events c) = attempts (events c0) @ attempts [(cur c0, u)] @ attempts evs"
    by (simp only: append_assoc)
  then have "drop (length (attempts (events c0))) (attempts (events c)) = attempts [(cur c0, u)] @ attempts evs"
    by simp
  with head tail have "\<forall>e \<in> set (drop (length (attempts (events c0))) (attempts (events c))). \<exists>msg. e = PStr msg \<and> msg \<noteq> []"
    by auto
  with d d1 show ?case by simp
qed

lemma cycle_continues:
  assumes llm: "\<forall>k. \<exists>t. llm_reply env k = Llm_returns (Some t)"
    and cyc: "in_cycle c"
  shows "\<exists>c1. step (create_agent_graph env others) c = Inr c1
       \<and> length (events c1) = Suc (length (events c))
       \<and> (cur c = Self_correction \<longrightarrow> in_cycle c1)
       \<and> (cur c = Query_execution \<longrightarrow>
            (\<exists>e. attempts (events c1) = attempts (events c) @ [e]
                \<and> ((\<exists>msg. e = PStr msg \<and> msg \<noteq> []) \<longrightarrow> in_cycle c1)))"
proof (cases "cur c = Query_execution")
  case True
  from cyc obtain q where q: "st c Generated_sql = Some (PStr q)"
    and kq: "st c Question \<noteq> None" and ks: "st c Retrieved_schema \<noteq> None"
    by (auto simp: in_cycle_def)
  from q have gq: "getv (st c) Generated_sql = PStr q" by (simp add: getv_def)
  from query_execution_node_str [OF gq, of env "wld c"] obtain r e w'
    where n: "query_execution_node env (st c) (wld c) =
        (Inr [Query_result \<mapsto> r, Sql_error \<mapsto> e, Generated_sql \<mapsto> PStr q], w')"
    by (elim exE conjE)
  let ?u = "[Query_result \<mapsto> r, Sql_error \<mapsto> e, Generated_sql \<mapsto> PStr q]"
  have gm: "getv (merge (st c) ?u) Sql_error = e" by (simp add: getv_def merge_def)
  have ed: "edges Query_execution (merge (st c) ?u)
      = Inr (if truthy e then Self_correction else Summarization)"
    by (simp only: edges_query_execution gm)
  let ?c1 = "\<lparr>cur = (if truthy e then Self_correction else Summarization), st = merge (st c) ?u,
              wld = w', events = events c @ [(Query_execution, ?u)]\<rparr>"
  from True n ed have s: "step (create_agent_graph env others) c = Inr ?c1"
    by (simp add: step_def del: edges.simps)
  have l: "length (events ?c1) = Suc (length (events c))" by simp
  have a: "attempts (events ?c1) = attempts (events c) @ [e]"
    by (simp add: attempts_snoc_execution getv_def)
  have i: "(\<exists>msg. e = PStr msg \<and> msg \<noteq> []) \<longrightarrow> in_cycle ?c1"
    using kq ks by (auto simp: in_cycle_def merge_def)
  have sc: "cur c = Self_correction \<longrightarrow> in_cycle ?c1" using True by simp
  have qe: "cur c = Query_execution \<longrightarrow>
            (\<exists>e'. attempts (events ?c1) = attempts (events c) @ [e']
                \<and> ((\<exists>msg. e' = PStr msg \<and> msg \<noteq> []) \<longrightarrow> in_cycle ?c1))"
  proof (rule impI)
    show "\<exists>e'. attempts (events ?c1) = attempts (events c) @ [e']
                \<and> ((\<exists>msg. e' = PStr msg \<and> msg \<noteq> []) \<longrightarrow> in_cycle ?c1)"
      by (rule exI [of _ e], rule conjI, rule a, rule i)
  qed
  from s l sc qe show ?thesis by (intro exI conjI)
next
  case False
  with cyc have sc: "cur c = Self_correction" and kq: "st c Question \<noteq> None"
    and ke: "st c Sql_error \<noteq> None" and ks: "st c Retrieved_schema \<noteq> None"
    by (auto simp: in_cycle_def)
  from cyc obtain q where q: "st c Generated_sql = Some (PStr q)" by (auto simp: in_cycle_def)
  from llm have "\<exists>t. llm_reply env (llm_calls (wld c)) = Llm_returns (Some t)" by (elim allE)
  then obtain t where t: "llm_reply env (llm_calls (wld c)) = Llm_returns (Some t)" by (elim exE)
  let ?u = "[Generated_sql \<mapsto> PStr (clean_sql t), Sql_error \<mapsto> PNone]"
  let ?w = "(wld c)\<lparr>llm_calls := Suc (llm_calls (wld c))\<rparr>"
  from kq ke ks q t have n: "self_correction_node env (st c) (wld c) = (Inr ?u, ?w)"
    by (auto simp: self_correction_node_def index_def invoke_chat_completion_def)
  let ?c1 = "\<lparr>cur = Query_execution, st = merge (st c) ?u, wld = ?w,
              events = events c @ [(Self_correction, ?u)]\<rparr>"
  from sc n have s: "step (create_agent_graph env others) c = Inr ?c1"
    by (simp add: step_def)
  from kq ks have i: "in_cycle ?c1" by (simp add: in_cycle_def merge_def)
  have l: "length (events ?c1) = Suc (length (events c))" by simp
  from i have i1: "cur c = Self_correction \<longrightarrow> in_cycle ?c1" by simp
  from False have i2: "cur c = Query_execution \<longrightarrow>
            (\<exists>e. attempts (events ?c1) = attempts (events c) @ [e]
                \<and> ((\<exists>msg. e = PStr msg \<and> msg \<noteq> []) \<longrightarrow> in_cycle ?c1))" by simp
  from s l i1 i2 show ?thesis by (intro exI conjI)
qed

lemma cycle_never_left:
  assumes llm: "\<forall>k. \<exists>t. llm_reply env k = Llm_returns (Some t)"
    and i0: "in_cycle c0"
    and att: "\<forall>n c. steps (create_agent_graph env others) n c0 = Inr c \<longrightarrow>
        (\<forall>e \<in> set (drop (length (attempts (events c0))) (attempts (events c))). \<exists>msg. e = PStr msg \<and> msg \<noteq> [])"
  shows "\<exists>c'. steps (create_agent_graph env others) n c0 = Inr c' \<and> in_cycle c'
       \<and> length (events c') = length (events c0) + n"
proof (induction n)
  case 0
  from i0 show ?case by simp
next
  case (Suc n)
  let ?G = "create_agent_graph env others"
  from Suc.IH obtain c where run: "steps ?G n c0 = Inr c" and i: "in_cycle c"
    and l: "length (events c) = length (events c0) + n" by (elim exE conjE)
  from cycle_continues [OF llm i, of others] obtain c1 where s1: "step ?G c = Inr c1"
    and l1: "length (events c1) = Suc (length (events c))"
    and sc: "cur c = Self_correction \<longrightarrow> in_cycle c1"
    and qe: "cur c = Query_execution \<longrightarrow>
            (\<exists>e. attempts (events c1) = attempts (events c) @ [e]
                \<and> ((\<exists>msg. e = PStr msg \<and> msg \<noteq> []) \<longrightarrow> in_cycle c1))"
    by (elim exE conjE)
  from i have ne: "cur c \<noteq> END" by (auto simp: in_cycle_def)
  from steps_snoc [OF run ne s1] have run1: "steps ?G (Suc n) c0 = Inr c1" .
  have i1: "in_cycle c1"
  proof (cases "cur c = Query_execution")
    case True
    from qe True have "\<exists>e. attempts (events c1) = attempts (events c) @ [e]
                \<and> ((\<exists>msg. e = PStr msg \<and> msg \<noteq> []) \<longrightarrow> in_cycle c1)" by (rule mp)
    then obtain e where a1: "attempts (events c1) = attempts (events c) @ [e]"
      and imp: "(\<exists>msg. e = PStr msg \<and> msg \<noteq> []) \<longrightarrow> in_cycle c1" by (elim exE conjE)
    from steps_events_prefix [OF run] obtain evs where "events c = events c0 @ evs" by (elim exE)
    then have "attempts (events c) = attempts (events c0) @ attempts evs" by (simp add: attempts_append)
    with a1 have "drop (length (attempts (events c0))) (attempts (events c1)) = attempts evs @ [e]"
      by simp
    then have mem: "e \<in> set (drop (length (attempts (events c0))) (attempts (events c1)))" by simp
    from att run1 have "\<forall>e \<in> set (drop (length (attempts (events c0))) (attempts (events c1))).
        \<exists>msg. e = PStr msg \<and> msg \<noteq> []" by (elim allE impE)
    from this mem have "\<exists>msg. e = PStr msg \<and> msg \<noteq> []" by (rule bspec)
    with imp show ?thesis by (rule mp)
  next
    case False
    with i have "cur c = Self_correction" by (auto simp: in_cycle_def)
    with sc show ?thesis by (rule mp)
  qed
  from l l1 have "length (events c1) = length (events c0) + Suc n" by simp
  with run1 i1 show ?case by (intro exI conjI)
qed

text \<open>
  Claim C3, as amended. The cycle has no counter: the edge out of \<^verbatim>\<open>self_correction\<close>
  leads to \<^verbatim>\<open>query_execution\<close> in every state. A run that entered the cycle, in which
  no step has raised and every execution attempt made so far has yielded an error message
  that is not empty, is still inside the cycle. And when the run starts at
  \<^verbatim>\<open>query_execution\<close> with a candidate query, the model answers every correction
  with some text, and every execution attempt the run makes yields an error message
  that is not empty, whatever the reason, then the run is still inside the cycle after
  any number of steps, each of which executed a node: the loop never terminates.
\<close>

theorem correction_cycle_unbounded:
  "(\<forall>s. edges Self_correction s = Inr Query_execution)
   \<and> (cur c0 = Query_execution \<and> steps (create_agent_graph env others) m c0 = Inr c
        \<and> (\<forall>e \<in> set (drop (length (attempts (events c0))) (attempts (events c))).
               \<exists>msg. e = PStr msg \<and> msg \<noteq> [])
      \<longrightarrow> cur c = Query_execution \<or> cur c = Self_correction)
   \<and> (cur c0 = Query_execution \<and> st c0 Question \<noteq> None \<and> st c0 Retrieved_schema \<noteq> None
        \<and> (\<exists>q. st c0 Generated_sql = Some (PStr q))
        \<and> (\<forall>k. \<exists>t. llm_reply env k = Llm_returns (Some t))
        \<and> (\<forall>n c. steps (create_agent_graph env others) n c0 = Inr c \<longrightarrow>
               (\<forall>e \<in> set (drop (length (attempts (events c0))) (attempts (events c))).
                  \<exists>msg. e = PStr msg \<and> msg \<noteq> []))
      \<longrightarrow> (\<forall>n. \<exists>c'. steps (create_agent_graph env others) n c0 = Inr c'
                  \<and> (cur c' = Query_execution \<or> cur c' = Self_correction)
                  \<and> length (events c') = length (events c0) + n))"
proof (intro conjI impI allI)
  fix s show "edges Self_correction s = Inr Query_execution" by simp
next
  assume h: "cur c0 = Query_execution \<and> steps (create_agent_graph env others) m c0 = Inr c
        \<and> (\<forall>e \<in> set (drop (length (attempts (events c0))) (attempts (events c))).
               \<exists>msg. e = PStr msg \<and> msg \<noteq> [])"
  from h have a: "cur c0 = Query_execution" by (rule conjunct1)
  from h have b: "steps (create_agent_graph env others) m c0 = Inr c"
    by (rule conjunct2 [THEN conjunct1])
  from h have f: "\<forall>e \<in> set (drop (length (attempts (events c0))) (attempts (events c))).
               \<exists>msg. e = PStr msg \<and> msg \<noteq> []"
    by (rule conjunct2 [THEN conjunct2])
  show "cur c = Query_execution \<or> cur c = Self_correction"
  proof (rule ccontr)
    assume "\<not> (cur c = Query_execution \<or> cur c = Self_correction)"
    then have c: "cur c \<noteq> Query_execution" and d: "cur c \<noteq> Self_correction" by simp_all
    from leave_cycle [OF a b c d] obtain e
      where mem: "e \<in> set (drop (length (attempts (events c0))) (attempts (events c)))"
        and e: "e = PNone \<or> e = PStr []" by (elim bexE)
    from f mem have "\<exists>msg. e = PStr msg \<and> msg \<noteq> []" by (rule bspec)
    with e show False by auto
  qed
next
  fix n
  assume h: "cur c0 = Query_execution \<and> st c0 Question \<noteq> None \<and> st c0 Retrieved_schema \<noteq> None
        \<and> (\<exists>q. st c0 Generated_sql = Some (PStr q))
        \<and> (\<forall>k. \<exists>t. llm_reply env k = Llm_returns (Some t))
        \<and> (\<forall>n c. steps (create_agent_graph env others) n c0 = Inr c \<longrightarrow>
               (\<forall>e \<in> set (drop (length (attempts (events c0))) (attempts (events c))).
                  \<exists>msg. e = PStr msg \<and> msg \<noteq> []))"
  then have i0: "in_cycle c0" by (simp add: in_cycle_def)
  from h have llm: "\<forall>k. \<exists>t. llm_reply env k = Llm_returns (Some t)" by (elim conjE)
  from h have att: "\<forall>n c. steps (create_agent_graph env others) n c0 = Inr c \<longrightarrow>
               (\<forall>e \<in> set (drop (length (attempts (events c0))) (attempts (events c))).
                  \<exists>msg. e = PStr msg \<and> msg \<noteq> [])" by (elim conjE)
  from cycle_never_left [OF llm i0 att, of n] obtain c'
    where r: "steps (create_agent_graph env others) n c0 = Inr c'" and i: "in_cycle c'"
      and l: "length (events c') = length (events c0) + n" by (elim exE conjE)
  from i have "cur c' = Query_execution \<or> cur c' = Self_correction"
    by (simp add: in_cycle_def)
  with r l show "\<exists>c'. steps (create_agent_graph env others) n c0 = Inr c'
                  \<and> (cur c' = Query_execution \<or> cur c' = Self_correction)
                  \<and> length (events c') = length (events c0) + n" by (intro exI conjI)
qed

lemma gate_refuses: "refused ''DROP TABLE sales'' \<and> refused (clean_sql ''DROP TABLE sales'')"
  unfolding refused_def by code_simp

theorem correction_cycle_unbounded_witness:
  "(\<forall>n. \<exists>c'. steps (create_agent_graph stubborn_env no_others) n (start Query_execution sql_state) = Inr c'
         \<and> (cur c' = Query_execution \<or> cur c' = Self_correction)
         \<and> length (events c') = length (events (start Query_execution sql_state)) + n)
   \<and> (\<forall>n. \<exists>c'. steps (create_agent_graph gate_env no_others) n (start Query_execution drop_state) = Inr c'
         \<and> (cur c' = Query_execution \<or> cur c' = Self_correction)
         \<and> length (events c') = length (events (start Query_execution drop_state)) + n)"
proof (rule conjI)
  let ?G = "create_agent_graph stubborn_env no_others"
  let ?c0 = "start Query_execution sql_state"
  have db: "\<forall>k q. \<exists>x. (db_reply stubborn_env k q = Connect_raises x \<or> db_reply stubborn_env k q = Execute_raises x)
                    \<and> str_of x \<noteq> []"
    by (simp add: stubborn_env_def mock_env_def)
  have att: "\<forall>n c. steps ?G n ?c0 = Inr c \<longrightarrow>
               (\<forall>e \<in> set (drop (length (attempts (events ?c0))) (attempts (events c))).
                  \<exists>msg. e = PStr msg \<and> msg \<noteq> [])"
  proof (intro allI impI)
    fix n c assume "steps ?G n ?c0 = Inr c"
    then show "\<forall>e \<in> set (drop (length (attempts (events ?c0))) (attempts (events c))).
                  \<exists>msg. e = PStr msg \<and> msg \<noteq> []"
      by (rule failing_db_attempts [OF db])
  qed
  have start: "cur ?c0 = Query_execution \<and> st ?c0 Question \<noteq> None \<and> st ?c0 Retrieved_schema \<noteq> None
        \<and> (\<exists>q. st ?c0 Generated_sql = Some (PStr q))
        \<and> (\<forall>k. \<exists>t. llm_reply stubborn_env k = Llm_returns (Some t))"
    by (simp add: start_def sql_state_def stubborn_env_def mock_env_def)
  from start att have h: "cur ?c0 = Query_execution \<and> st ?c0 Question \<noteq> None \<and> st ?c0 Retrieved_schema \<noteq> None
        \<and> (\<exists>q. st ?c0 Generated_sql = Some (PStr q))
        \<and> (\<forall>k. \<exists>t. llm_reply stubborn_env k = Llm_returns (Some t))
        \<and> (\<forall>n c. steps ?G n ?c0 = Inr c \<longrightarrow>
               (\<forall>e \<in> set (drop (length (attempts (events ?c0))) (attempts (events c))).
                  \<exists>msg. e = PStr msg \<and> msg \<noteq> []))"
    by (elim conjE) (intro conjI)
  from correction_cycle_unbounded [where env = stubborn_env and others = no_others
      and ?c0.0 = ?c0, THEN conjunct2, THEN conjunct2, THEN mp, OF h]
  show "\<forall>n. \<exists>c'. steps ?G n ?c0 = Inr c'
         \<and> (cur c' = Query_execution \<or> cur c' = Self_correction)
         \<and> length (events c') = length (events ?c0) + n" .
next
  let ?G = "create_agent_graph gate_env no_others"
  let ?c0 = "start Query_execution drop_state"
  have llm: "\<forall>k. llm_reply gate_env k = Llm_returns (Some ''DROP TABLE sales'')"
    by (simp add: gate_env_def mock_env_def)
  have i0: "in_cycle ?c0" by (simp add: in_cycle_def start_def drop_state_def)
  have q0: "st ?c0 Generated_sql = Some (PStr ''DROP TABLE sales'')"
    by (simp add: start_def drop_state_def)
  have att: "\<forall>n c. steps ?G n ?c0 = Inr c \<longrightarrow>
               (\<forall>e \<in> set (drop (length (attempts (events ?c0))) (attempts (events c))).
                  \<exists>msg. e = PStr msg \<and> msg \<noteq> [])"
  proof (intro allI impI)
    fix n c assume "steps ?G n ?c0 = Inr c"
    from refused_attempts [OF llm gate_refuses [THEN conjunct2] i0 q0 gate_refuses [THEN conjunct1] this]
    show "\<forall>e \<in> set (drop (length (attempts (events ?c0))) (attempts (events c))).
                  \<exists>msg. e = PStr msg \<and> msg \<noteq> []"
      by (rule conjunct1)
  qed
  have start: "cur ?c0 = Query_execution \<and> st ?c0 Question \<noteq> None \<and> st ?c0 Retrieved_schema \<noteq> None
        \<and> (\<exists>q. st ?c0 Generated_sql = Some (PStr q))
        \<and> (\<forall>k. \<exists>t. llm_reply gate_env k = Llm_returns (Some t))"
    by (simp add: start_def drop_state_def gate_env_def mock_env_def)
  from start att have h: "cur ?c0 = Query_execution \<and> st ?c0 Question \<noteq> None \<and> st ?c0 Retrieved_schema \<noteq> None
        \<and> (\<exists>q. st ?c0 Generated_sql = Some (PStr q))
        \<and> (\<forall>k. \<exists>t. llm_reply gate_env k = Llm_returns (Some t))
        \<and> (\<forall>n c. steps ?G n ?c0 = Inr c \<longrightarrow>
               (\<forall>e \<in> set (drop (length (attempts (events ?c0))) (attempts (events c))).
                  \<exists>msg. e = PStr msg \<and> msg \<noteq> []))"
    by (elim conjE) (intro conjI)
  from correction_cycle_unbounded [where env = gate_env and others = no_others
      and ?c0.0 = ?c0, THEN conjunct2, THEN conjunct2, THEN mp, OF h]
  show "\<forall>n. \<exists>c'. steps ?G n ?c0 = Inr c'
         \<and> (cur c' = Query_execution \<or> cur c' = Self_correction)
         \<and> length (events c') = length (events ?c0) + n" .
qed

lemma gate_makes_no_database_call:
  assumes "steps (create_agent_graph gate_env no_others) n (start Query_execution drop_state) = Inr c"
  shows "db_calls (wld c) = 0"
proof -
  have llm: "\<forall>k. llm_reply gate_env k = Llm_returns (Some ''DROP TABLE sales'')"
    by (simp add: gate_env_def mock_env_def)
  have i0: "in_cycle (start Query_execution drop_state)"
    by (simp add: in_cycle_def start_def drop_state_def)
  have q0: "st (start Query_execution drop_state) Generated_sql = Some (PStr ''DROP TABLE sales'')"
    by (simp add: start_def drop_state_def)
  from refused_attempts [OF llm gate_refuses [THEN conjunct2] i0 q0 gate_refuses [THEN conjunct1] assms]
  have "db_calls (wld c) = db_calls (wld (start Query_execution drop_state))" by (rule conjunct2)
  then show ?thesis by (simp add: start_def world0_def)
qed

lemma stubborn_q: "strip ''SELECT totl FROM sales'' \<noteq> [] \<and> startswith (upper (strip ''SELECT totl FROM sales'')) ''SELECT''"
  by code_simp

text \<open>
  Against C3 as stated: with a model that is unavailable, the first execution attempt
  fails, the correction step raises, and the turn ends there: the loop has terminated
  and no execution attempt has yielded a null \<open>sql_error\<close>.
\<close>

theorem correction_abort_ends_cycle:
  "(\<exists>c. steps (create_agent_graph offline_env no_others) (Suc 0) (start Query_execution sql_state) = Inr c
        \<and> cur c = Self_correction \<and> attempts (events c) = [PStr ''column totl does not exist'']
        \<and> getv (st c) Query_result = PNone)
   \<and> steps (create_agent_graph offline_env no_others) (Suc (Suc 0)) (start Query_execution sql_state)
       = Inl (Raised OtherError ''API unavailable'')"
proof (rule conjI)
  show "\<exists>c. steps (create_agent_graph offline_env no_others) (Suc 0) (start Query_execution sql_state) = Inr c
        \<and> cur c = Self_correction \<and> attempts (events c) = [PStr ''column totl does not exist'']
        \<and> getv (st c) Query_result = PNone"
    by (simp add: step_def query_execution_node_def execute_sql_query_def validate_str_def
        execute_sql_query_body_def db_try_def
        self_correction_node_def invoke_chat_completion_def index_def getv_def merge_def
        conditional_edge_def should_continue_to_summarization_def sql_result_def dict_get_def
        offline_env_def mock_env_def start_def world0_def
        sql_state_def attempts_def stubborn_q Let_def)
  show "steps (create_agent_graph offline_env no_others) (Suc (Suc 0)) (start Query_execution sql_state)
       = Inl (Raised OtherError ''API unavailable'')"
    by (simp add: step_def query_execution_node_def execute_sql_query_def validate_str_def
        execute_sql_query_body_def db_try_def
        self_correction_node_def invoke_chat_completion_def index_def getv_def merge_def
        conditional_edge_def should_continue_to_summarization_def sql_result_def dict_get_def
        offline_env_def mock_env_def start_def world0_def
        sql_state_def stubborn_q Let_def)
qed

text \<open>
  An exception without a message. When an attempt fails with an exception whose
  \<^verbatim>\<open>str\<close> is empty, \<open>sql_error\<close> is the empty string: the result carries no rows
  and an error that is not null, and the selector, which tests truthiness, sends the run
  to \<^verbatim>\<open>summarization\<close>.
\<close>

lemma empty_message_is_summarised:
  "\<exists>c. steps (create_agent_graph silent_env no_others) (Suc 0) (start Query_execution sql_state) = Inr c
        \<and> cur c = Summarization \<and> attempts (events c) = [PStr []]
        \<and> getv (st c) Query_result = PNone \<and> getv (st c) Sql_error \<noteq> PNone"
  by (simp add: step_def query_execution_node_def execute_sql_query_def validate_str_def
        execute_sql_query_body_def db_try_def
        getv_def merge_def conditional_edge_def should_continue_to_summarization_def
        sql_result_def dict_get_def silent_env_def mock_env_def start_def world0_def
        sql_state_def attempts_def stubborn_q Let_def)

end
